theory Spec2Isabelle
  imports Main
begin

section \<open>Go library functions used by the shell package\<close>

text \<open>
  Go strings are byte sequences, modelled as \<open>string\<close> (a list of 8-bit characters);
  non-ASCII text is its UTF-8 encoding.
\<close>

definition newline :: char where
  "newline = CHR 0x0A"

definition dquote :: char where
  "dquote = CHR 0x22"

text \<open>
  \<open>unicode.IsSpace\<close> holds for U+0009..U+000D, U+0020, U+0085, U+00A0, U+1680,
  U+2000..U+200A, U+2028, U+2029, U+202F, U+205F and U+3000. A rune is decoded from the
  front (or the back) of a string exactly when the string starts (or ends) with its UTF-8
  encoding, so the table below lists the encodings of the white-space runes.
\<close>

definition spaceRunes :: "string list" where
  "spaceRunes =
     [[CHR 0x09], [CHR 0x0A], [CHR 0x0B], [CHR 0x0C], [CHR 0x0D], [CHR 0x20],
      [CHR 0xC2, CHR 0x85], [CHR 0xC2, CHR 0xA0],
      [CHR 0xE1, CHR 0x9A, CHR 0x80],
      [CHR 0xE2, CHR 0x80, CHR 0x80], [CHR 0xE2, CHR 0x80, CHR 0x81],
      [CHR 0xE2, CHR 0x80, CHR 0x82], [CHR 0xE2, CHR 0x80, CHR 0x83],
      [CHR 0xE2, CHR 0x80, CHR 0x84], [CHR 0xE2, CHR 0x80, CHR 0x85],
      [CHR 0xE2, CHR 0x80, CHR 0x86], [CHR 0xE2, CHR 0x80, CHR 0x87],
      [CHR 0xE2, CHR 0x80, CHR 0x88], [CHR 0xE2, CHR 0x80, CHR 0x89],
      [CHR 0xE2, CHR 0x80, CHR 0x8A],
      [CHR 0xE2, CHR 0x80, CHR 0xA8], [CHR 0xE2, CHR 0x80, CHR 0xA9],
      [CHR 0xE2, CHR 0x80, CHR 0xAF],
      [CHR 0xE2, CHR 0x81, CHR 0x9F],
      [CHR 0xE3, CHR 0x80, CHR 0x80]]"

text \<open>The width in bytes of the white-space rune a string starts with, 0 if there is none.\<close>

definition leadingSpace :: "string list \<Rightarrow> string \<Rightarrow> nat" where
  "leadingSpace runes s =
     (case filter (\<lambda>r. r \<noteq> [] \<and> take (length r) s = r) runes of
        [] \<Rightarrow> 0
      | r # _ \<Rightarrow> length r)"

lemma leadingSpace_Nil: "leadingSpace runes [] = 0"
  by (auto simp: leadingSpace_def filter_eq_Cons_iff split: list.splits)

function trimLeft :: "string list \<Rightarrow> string \<Rightarrow> string" where
  "trimLeft runes s =
     (if leadingSpace runes s = 0 then s else trimLeft runes (drop (leadingSpace runes s) s))"
  by pat_completeness auto
termination
proof (relation "measure (\<lambda>(runes, s). length s)")
  show "wf (measure (\<lambda>(runes :: string list, s :: string). length s))"
    by simp
next
  fix runes :: "string list" and s :: string
  assume "leadingSpace runes s \<noteq> 0"
  moreover from this have "s \<noteq> []"
    using leadingSpace_Nil by auto
  ultimately show "((runes, drop (leadingSpace runes s) s), (runes, s))
      \<in> measure (\<lambda>(runes, s). length s)"
    by simp
qed

declare trimLeft.simps [simp del]

text \<open>\<open>strings.TrimSpace\<close>: white space is removed from the front, then from the back.\<close>

definition TrimSpace :: "string \<Rightarrow> string" where
  "TrimSpace s = rev (trimLeft (map rev spaceRunes) (rev (trimLeft spaceRunes s)))"

text \<open>
  \<open>strconv.Atoi\<close> for a 64-bit \<open>int\<close>: an optional sign followed by one or more decimal
  digits, rejected when the value does not fit. \<open>None\<close> is the error return.
\<close>

definition isDigit :: "char \<Rightarrow> bool" where
  "isDigit c = (48 \<le> (of_char c :: nat) \<and> (of_char c :: nat) \<le> 57)"

definition decimal :: "string \<Rightarrow> int" where
  "decimal ds = foldl (\<lambda>n c. n * 10 + (of_char c - 48)) 0 ds"

definition Atoi :: "string \<Rightarrow> int option" where
  "Atoi s =
     (let neg = (case s of [] \<Rightarrow> False | c # _ \<Rightarrow> c = CHR ''-'');
          ds = (case s of [] \<Rightarrow> [] | c # cs \<Rightarrow> if c = CHR ''-'' \<or> c = CHR ''+'' then cs else s)
      in if ds = [] \<or> \<not> list_all isDigit ds then None
         else let n = (if neg then - decimal ds else decimal ds)
              in if n < - (2 ^ 63) \<or> 2 ^ 63 - 1 < n then None else Some n)"

section \<open>The shell package: \<open>ExecuteCommand\<close>\<close>

datatype error = ErrTimeout | ErrCancelled | ErrExitCode string

definition beginMarker :: string where
  "beginMarker = ''>>>>>>>>>>SHELLDOC_MARKER>>>>>>>>>>>>>>>>>>>>>>>>>>>>>>''"

definition endMarker :: string where
  "endMarker = ''<<<<<<<<<<SHELLDOC_MARKER''"

text \<open>
  \<open>beginRx\<close> is \<open>^beginMarker$\<close> and \<open>endRx\<close> is \<open>^endMarker (.+)$\<close>. Neither marker
  contains a character that is special in a regular expression, \<open>^\<close> and \<open>$\<close> anchor at
  the ends of the text, and \<open>.\<close> matches every byte but a newline.
  \<open>FindStringSubmatch\<close> returns the whole match and the group, or nil.
\<close>

definition beginRx_MatchString :: "string \<Rightarrow> bool" where
  "beginRx_MatchString line = (line = beginMarker)"

definition endRx_FindStringSubmatch :: "string \<Rightarrow> string list" where
  "endRx_FindStringSubmatch line =
     (let prefix = endMarker @ '' ''; n = length prefix
      in if take n line = prefix \<and> drop n line \<noteq> [] \<and> newline \<notin> set (drop n line)
         then [line, drop n line] else [])"

text \<open>
  \<open>commandResult\<close>: the value the scanning goroutine sends on \<open>resultCh\<close>. A nil slice
  is the empty list: the function builds slices by \<open>append\<close> only, so a slice it holds is
  nil exactly when it is empty.
\<close>

record commandResult =
  r_output :: "string list"
  r_rc :: int
  r_err :: "error option"

text \<open>
  The loop of the scanning goroutine over the lines \<open>bufio.Scanner\<close> delivers. \<open>ends\<close>
  tells what happens after the last line: \<open>Scan\<close> returns false (end of file or a read
  error), or it blocks for ever and nothing is sent (\<open>None\<close>).
\<close>

fun scanLoop :: "string list \<Rightarrow> bool \<Rightarrow> string list \<Rightarrow> bool \<Rightarrow> commandResult option" where
  "scanLoop [] ends out beginFound =
     (if ends then Some \<lparr>r_output = out, r_rc = 0, r_err = None\<rparr> else None)"
| "scanLoop (line # rest) ends out beginFound =
     (if beginRx_MatchString line then scanLoop rest ends out True
      else if \<not> beginFound then scanLoop rest ends out beginFound
      else let match = endRx_FindStringSubmatch line
           in if length match > 1
              then (case Atoi (match ! 1) of
                      None \<Rightarrow> Some \<lparr>r_output = [], r_rc = - 1, r_err = Some (ErrExitCode (match ! 1))\<rparr>
                    | Some v \<Rightarrow> Some \<lparr>r_output = out, r_rc = v, r_err = None\<rparr>)
              else scanLoop rest ends (out @ [line]) beginFound)"

text \<open>
  The session. \<open>stdin\<close> holds the bytes handed to the shell's standard input so far
  (\<open>io.WriteString\<close>, whose error the code ignores); \<open>proc\<close> tells how the process was
  ended, if it was.
\<close>

datatype procState = Running | Exited | Killed

record Shell =
  stdin :: string
  proc :: procState

definition WriteString :: "Shell \<Rightarrow> string \<Rightarrow> Shell" where
  "WriteString shell s = shell\<lparr>stdin := stdin shell @ s\<rparr>"

text \<open>
  What one call of \<open>ExecuteCommand\<close> meets: the lines the scanner reads from the shell's
  standard output and what follows them (\<open>ends\<close>, see \<open>scanLoop\<close>), the time after
  which the goroutine has sent its result (if the scan gets that far), the time at which
  \<open>ctx.Done()\<close> is closed (\<open>Some 0\<close>: the context is cancelled already), whether the
  context is cancelled when the caller polls it before the call, and the order in which
  the runtime polls the cases of the \<open>select\<close> statement. Times count nanoseconds from
  the moment the \<open>select\<close> is reached.
\<close>

datatype chan = ResultCh | TimerCh | DoneCh

record response =
  lines :: "string list"
  ends :: bool
  scanned_at :: nat
  done_at :: "nat option"
  done_before :: bool
  pollorder :: "chan list"

text \<open>
  A \<open>select\<close> without default: it takes a case that is ready first, and among several cases
  ready at the same moment the first in the runtime's polling order. With no case ever
  ready it blocks for ever (\<open>None\<close>).
\<close>

fun earliest :: "nat option list \<Rightarrow> nat option" where
  "earliest [] = None"
| "earliest (None # ts) = earliest ts"
| "earliest (Some t # ts) = (case earliest ts of None \<Rightarrow> Some t | Some u \<Rightarrow> Some (min t u))"

definition selectgo :: "(chan \<times> nat option) list \<Rightarrow> chan list \<Rightarrow> (chan \<times> nat) option" where
  "selectgo cases order =
     (case earliest (map snd cases) of
        None \<Rightarrow> None
      | Some t \<Rightarrow>
          (case find (\<lambda>c. (c, Some t) \<in> set cases) (order @ map fst cases) of
             None \<Rightarrow> None
           | Some c \<Rightarrow> Some (c, t)))"

text \<open>
  \<open>ExecuteCommand\<close> returns the session after the two writes and, unless it blocks for
  ever, the time at which it returns with its three results (output, exit code, error).
\<close>

type_synonym result = "string list \<times> int \<times> error option"

definition ExecuteCommand :: "Shell \<Rightarrow> response \<Rightarrow> string \<Rightarrow> int \<Rightarrow> Shell \<times> (nat \<times> result) option" where
  "ExecuteCommand shell env command timeout =
     (let instruction = TrimSpace command;
          shell1 = WriteString shell (''echo '' @ [dquote] @ beginMarker @ [dquote, newline]);
          shell2 = WriteString shell1
                     (instruction @ ''; echo '' @ [dquote] @ endMarker @ '' $?'' @ [dquote, newline]);
          scanned = scanLoop (lines env) (ends env) [] False;
          resultCh = (case scanned of None \<Rightarrow> None | Some r \<Rightarrow> Some (scanned_at env));
          chosen = (if timeout > 0
                    then selectgo [(ResultCh, resultCh), (TimerCh, Some (nat timeout)),
                                   (DoneCh, done_at env)] (pollorder env)
                    else selectgo [(ResultCh, resultCh), (DoneCh, done_at env)] (pollorder env))
      in (shell2,
          case chosen of
            None \<Rightarrow> None
          | Some (ResultCh, t) \<Rightarrow>
              (case scanned of
                 None \<Rightarrow> None
               | Some r \<Rightarrow> Some (t, r_output r, r_rc r, r_err r))
          | Some (TimerCh, t) \<Rightarrow> Some (t, [], - 1, Some ErrTimeout)
          | Some (DoneCh, t) \<Rightarrow> Some (t, [], - 1, Some ErrCancelled)))"

text \<open>
  The cases of the \<open>select\<close> statement that \<open>ExecuteCommand\<close> reaches, each with the time
  at which it becomes ready: the first \<open>select\<close> for a positive timeout, the second otherwise.
\<close>

definition selectCases :: "response \<Rightarrow> int \<Rightarrow> (chan \<times> nat option) list" where
  "selectCases env timeout =
     (let resultCh = (case scanLoop (lines env) (ends env) [] False of
                        None \<Rightarrow> None | Some r \<Rightarrow> Some (scanned_at env))
      in if timeout > 0
         then [(ResultCh, resultCh), (TimerCh, Some (nat timeout)), (DoneCh, done_at env)]
         else [(ResultCh, resultCh), (DoneCh, done_at env)])"

text \<open>
  \<open>Exit\<close> writes \<open>exit\<close> to the shell and waits for the process, which is taken to end;
  \<open>Kill\<close> kills the process.
\<close>

definition Exit :: "Shell \<Rightarrow> Shell" where
  "Exit shell = (WriteString shell (''exit'' @ [newline]))\<lparr>proc := Exited\<rparr>"

definition Kill :: "Shell \<Rightarrow> Shell" where
  "Kill shell = shell\<lparr>proc := Killed\<rparr>"

section \<open>The tokenizer package\<close>

text \<open>
  The sources at hand hold the tests of the tokenizer package but not its code
  (\<open>interaction.go\<close>, \<open>tokenizer.go\<close>). What the code below needs from it is modelled from
  the specification, with the names the tests use.
\<close>

datatype ResultCode =
  NewInteraction | ResultExecutionError | ResultMatch | ResultRegexMatch | ResultMismatch
  | ResultError

record Interaction =
  Cmd :: string
  Caption :: string
  Language :: string
  Attributes :: "string \<rightharpoonup> string"
  Response :: "string list"
  Output :: "string list"
  ExitCode :: int
  ResultCode :: ResultCode

definition New :: "string \<Rightarrow> Interaction" where
  \<comment> \<open>Modelled from the spec: the constructor \<open>New\<close> of \<open>interaction.go\<close>; a fresh
     Interaction carries its caption and is in the state NotExecuted.\<close>
  "New caption = \<lparr>Cmd = [], Caption = caption, Language = [], Attributes = Map.empty,
     Response = [], Output = [], ExitCode = 0, ResultCode = NewInteraction\<rparr>"

definition ellipsis :: string where
  "ellipsis = ''...''"

definition evaluateResponse :: "string list \<Rightarrow> string list \<Rightarrow> bool" where
  \<comment> \<open>Modelled from the spec: \<open>Interaction.evaluateResponse\<close> of \<open>interaction.go\<close>, the
     response matcher. Exact policy: the sequences are equal element-wise, including length.
     Ellipsis truncation: if the expected lines contain a literal \<open>...\<close> line at position
     \<open>i\<close>, the lines before \<open>i\<close> must match exactly and everything from position \<open>i\<close> onward
     in the actual lines is accepted.\<close>
  "evaluateResponse expected actual =
     (if ellipsis \<in> set expected
      then let i = length (takeWhile (\<lambda>line. line \<noteq> ellipsis) expected)
           in i \<le> length actual \<and> take i actual = take i expected
      else actual = expected)"

definition HasFailure :: "Interaction \<Rightarrow> bool" where
  \<comment> \<open>Modelled from the spec: \<open>Interaction.HasFailure\<close> of \<open>interaction.go\<close>, with the table
     of \<open>TestInteractionHasFailure\<close>: a mismatch and a runtime error are failures of the
     test, an execution error is not.\<close>
  "HasFailure interaction =
     (ResultCode interaction = ResultMismatch \<or> ResultCode interaction = ResultError)"

definition Result :: "Interaction \<Rightarrow> string" where
  \<comment> \<open>Modelled from the spec: \<open>Interaction.Result\<close> of \<open>interaction.go\<close>, with the table of
     \<open>TestInteractionResult\<close>.\<close>
  "Result interaction =
     (case ResultCode interaction of
        NewInteraction \<Rightarrow> ''not executed''
      | ResultExecutionError \<Rightarrow> ''ERROR (result not evaluated)''
      | ResultMatch \<Rightarrow>
          (if Response interaction = [] then ''PASS (execution successful)'' else ''PASS (match)'')
      | ResultRegexMatch \<Rightarrow> ''PASS (regex match)''
      | ResultMismatch \<Rightarrow> ''FAIL (mismatch)''
      | ResultError \<Rightarrow> ''FAIL (execution failed)'')"

definition Execute ::
  "Interaction \<Rightarrow> Shell \<Rightarrow> response \<Rightarrow> int \<Rightarrow> (Interaction \<times> Shell \<times> error option) option" where
  \<comment> \<open>Modelled from the spec: \<open>Interaction.Execute\<close> of \<open>interaction.go\<close>, the execution
     coordinator. It runs the command through \<open>ExecuteCommand\<close>; if that call fails, the
     interaction is classified as an execution error and the error of the call is handed to
     the caller (who compares it with \<open>ErrTimeout\<close> and \<open>ErrCancelled\<close>); otherwise the
     output and the exit code are recorded and the response matcher decides between match
     and mismatch, where no documented response lines means success whatever the output.
     The spec leaves open when the regex policy applies and how an expected exit code is
     checked; neither is modelled. \<open>None\<close>: the call never returns.\<close>
  "Execute interaction shell env timeout =
     (case ExecuteCommand shell env (Cmd interaction) timeout of
        (shell', None) \<Rightarrow> None
      | (shell', Some (t, out, code, Some e)) \<Rightarrow>
          Some (interaction\<lparr>ResultCode := ResultExecutionError\<rparr>, shell', Some e)
      | (shell', Some (t, out, code, None)) \<Rightarrow>
          Some (interaction\<lparr>Output := out, ExitCode := code,
                  ResultCode := (if Response interaction = []
                                   \<or> evaluateResponse (Response interaction) out
                                 then ResultMatch else ResultMismatch)\<rparr>,
                shell', None))"

subsection \<open>Extraction of interactions from a code block\<close>

definition isPrompt :: "string \<Rightarrow> bool" where
  \<comment> \<open>Modelled from the spec: a line beginning with a recognized shell prompt marker,
     \<open>$\<close> or \<open>>\<close> followed by a space.\<close>
  "isPrompt line = (take 2 line = ''$ '' \<or> take 2 line = ''> '')"

fun codeBlockLines :: "Interaction \<Rightarrow> string list \<Rightarrow> Interaction option \<Rightarrow> Interaction list" where
  \<comment> \<open>Modelled from the spec: the code-block handler of the interaction visitor
     (\<open>tokenizer.go\<close>), over the lines of one block. A prompt line starts a new command, the
     trimmed text after the prompt; the lines up to the next prompt line or the end of the
     block are its expected response; lines before any prompt line are discarded. \<open>fresh\<close>
     carries the caption, language and attributes of the block.\<close>
  "codeBlockLines fresh [] current = (case current of None \<Rightarrow> [] | Some i \<Rightarrow> [i])"
| "codeBlockLines fresh (line # rest) current =
     (if isPrompt line
      then (case current of None \<Rightarrow> [] | Some i \<Rightarrow> [i])
           @ codeBlockLines fresh rest (Some (fresh\<lparr>Cmd := TrimSpace (drop 2 line)\<rparr>))
      else (case current of
              None \<Rightarrow> codeBlockLines fresh rest None
            | Some i \<Rightarrow> codeBlockLines fresh rest (Some (i\<lparr>Response := Response i @ [line]\<rparr>))))"

definition codeBlock :: "Interaction \<Rightarrow> string list \<Rightarrow> Interaction list" where
  "codeBlock fresh block = codeBlockLines fresh block None"

subsection \<open>The info string of a fenced code block\<close>

fun splitOn :: "char \<Rightarrow> string \<Rightarrow> string list" where
  "splitOn sep [] = [[]]"
| "splitOn sep (c # cs) =
     (if c = sep then [] # splitOn sep cs
      else (case splitOn sep cs of [] \<Rightarrow> [[c]] | w # ws \<Rightarrow> (c # w) # ws))"

definition Fields :: "string \<Rightarrow> string list" where
  "Fields s = filter (\<lambda>w. w \<noteq> []) (splitOn (CHR '' '') s)"

definition namespace :: string where
  "namespace = ''shelldoc''"

definition addAttribute :: "(string \<rightharpoonup> string) \<Rightarrow> string \<Rightarrow> (string \<rightharpoonup> string)" where
  "addAttribute attrs token =
     (let key = takeWhile (\<lambda>c. c \<noteq> CHR ''='') token;
          val = drop (length key + 1) token
      in if take (length namespace) key = namespace then attrs(key \<mapsto> val) else attrs)"

definition parseCodeBlockInfoString :: "string \<Rightarrow> string \<times> (string \<rightharpoonup> string)" where
  \<comment> \<open>Modelled from the spec: \<open>parseCodeBlockInfoString\<close> of \<open>tokenizer.go\<close>. The info string
     is a language and attribute annotations in a brace-delimited suffix, as in
     \<open>shell {key=value key2}\<close>: the language is the leading word, the attributes are the
     \<open>key=value\<close> or bare \<open>key\<close> tokens inside the braces whose key starts with the
     recognized prefix, a later token replacing an earlier one with the same key. An info
     string without such a suffix yields no language and no attributes, as
     \<open>TestParseCodeBlockInfoString\<close> expects of the info string \<open>bash\<close>.\<close>
  "parseCodeBlockInfoString infostring =
     (if infostring \<noteq> [] \<and> last infostring = CHR ''}'' \<and> CHR ''{'' \<in> set infostring
      then let head = takeWhile (\<lambda>c. c \<noteq> CHR ''{'') infostring;
               inner = butlast (drop (length head + 1) infostring)
           in (case Fields head of [] \<Rightarrow> [] | word # _ \<Rightarrow> word,
               foldl addAttribute Map.empty (Fields inner))
      else ([], Map.empty))"

section \<open>The run package: \<open>performInteractions\<close>\<close>

text \<open>
  The test suite under construction. \<open>junitxml\<close>'s types are not among the sources; a test
  case is modelled with the fields \<open>performInteractions\<close> sets, an error holding the Go error
  whose text is registered, a failure the expected and the actual lines that
  \<open>DescribeFull\<close> renders, and \<open>RegisterTestCase\<close> appends the test case to the suite.
  Console output, logging, elapsed times and the return code that the run context
  accumulates are left out: none of them steers the loop.
\<close>

record JUnitError =
  e_Type :: string
  e_Message :: string
  e_Contents :: error

record JUnitFailure =
  f_Type :: string
  f_Message :: string
  f_Contents :: "string list \<times> string list"

record JUnitTestCase =
  Name :: string
  Classname :: string
  Error :: "JUnitError option"
  Failure :: "JUnitFailure option"

definition returnSuccess :: nat where "returnSuccess = 0"
definition returnFailure :: nat where "returnFailure = 1"
definition returnError :: nat where "returnError = 2"

definition result :: "nat \<Rightarrow> string" where
  "result code =
     (if code = returnFailure then ''FAILURE''
      else if code = returnError then ''ERROR''
      else ''SUCCESS'')"

definition RegisterError :: "JUnitTestCase \<Rightarrow> string \<Rightarrow> string \<Rightarrow> error \<Rightarrow> JUnitTestCase" where
  \<comment> \<open>Modelled from the spec: \<open>JUnitTestCase.RegisterError\<close>, with \<open>TestRegisterError\<close>.\<close>
  "RegisterError testcase typ message contents =
     testcase\<lparr>Error := Some \<lparr>e_Type = typ, e_Message = message, e_Contents = contents\<rparr>\<rparr>"

definition RegisterFailure ::
  "JUnitTestCase \<Rightarrow> string \<Rightarrow> string \<Rightarrow> string list \<times> string list \<Rightarrow> JUnitTestCase" where
  \<comment> \<open>Modelled from the spec: \<open>JUnitTestCase.RegisterFailure\<close>, with \<open>TestRegisterFailure\<close>.\<close>
  "RegisterFailure testcase typ message contents =
     testcase\<lparr>Failure := Some \<lparr>f_Type = typ, f_Message = message, f_Contents = contents\<rparr>\<rparr>"

definition RegisterTestCase :: "JUnitTestCase list \<Rightarrow> JUnitTestCase \<Rightarrow> JUnitTestCase list" where
  \<comment> \<open>Modelled from the spec: \<open>JUnitTestSuite.RegisterTestCase\<close>, with \<open>TestRegisterTestCase\<close>;
     it returns no error there.\<close>
  "RegisterTestCase suite testcase = suite @ [testcase]"

text \<open>The run context: the flags of the \<open>run\<close> command that \<open>performInteractions\<close> reads.\<close>

record Context =
  ShellName :: string
  FailureStops :: bool
  Verbose :: bool
  ReplaceDots :: bool
  DryRun :: bool
  Timeout :: int

definition ReplaceAllDots :: "string \<Rightarrow> string" where
  \<comment> \<open>\<open>strings.ReplaceAll(inputfile, ".", "\<bullet>")\<close>: the circle is U+25CF, three bytes in UTF-8.\<close>
  "ReplaceAllDots s =
     concat (map (\<lambda>c. if c = CHR ''.'' then [CHR 0xE2, CHR 0x97, CHR 0x8F] else [c]) s)"

definition performTestCase ::
  "Context \<Rightarrow> Interaction \<Rightarrow> Shell \<Rightarrow> response
     \<Rightarrow> (JUnitTestCase \<times> Interaction \<times> Shell \<times> error option) option" where
  "performTestCase runCtx interaction sh env =
     (let testcase = \<lparr>Name = Cmd interaction, Classname = [], Error = None, Failure = None\<rparr>
      in case Execute interaction sh env (Timeout runCtx) of
           None \<Rightarrow> None
         | Some (interaction', sh', err) \<Rightarrow> Some (testcase, interaction', sh', err))"

text \<open>
  The state of the loop over the interactions: the test cases registered with the suite, the
  session, the interactions executed so far with their results, and whether the loop was left
  at the cancellation check.
\<close>

record loopState =
  suite :: "JUnitTestCase list"
  session :: Shell
  executed :: "Interaction list"
  cancelled :: bool

text \<open>
  The loop of \<open>performInteractions\<close>. Each interaction comes with what its execution meets,
  should the loop reach it. \<open>None\<close>: an execution never returns, and neither does the loop.
\<close>

fun interactionLoop ::
  "Context \<Rightarrow> string \<Rightarrow> (Interaction \<times> response) list \<Rightarrow> loopState \<Rightarrow> loopState option" where
  "interactionLoop runCtx inputfile [] st = Some st"
| "interactionLoop runCtx inputfile ((interaction, env) # rest) st =
     (if done_before env then Some (st\<lparr>cancelled := True\<rparr>)
      else case performTestCase runCtx interaction (session st) env of
             None \<Rightarrow> None
           | Some (testcase, interaction', sh', err) \<Rightarrow>
               let testcase1 = testcase\<lparr>Classname :=
                                 (if ReplaceDots runCtx then ReplaceAllDots inputfile
                                  else inputfile)\<rparr>;
                   testcase2 = (case err of
                                  None \<Rightarrow> testcase1
                                | Some e \<Rightarrow> RegisterError testcase1 (result returnError)
                                            (Result interaction') e);
                   testcase3 = (if HasFailure interaction'
                                then RegisterFailure testcase2 (result returnFailure)
                                       (Result interaction')
                                       (Response interaction', Output interaction')
                                else testcase2);
                   st' = st\<lparr>suite := RegisterTestCase (suite st) testcase3, session := sh',
                            executed := executed st @ [interaction']\<rparr>
               in if err = Some ErrCancelled then Some st'
                  else if err = Some ErrTimeout then Some st'
                  else if HasFailure interaction' \<and> FailureStops runCtx then Some st'
                  else interactionLoop runCtx inputfile rest st')"

text \<open>
  The body of the loop in two parts, for the proofs: the state after an executed interaction
  has been registered, and the three conditions under which the loop is left after it.
\<close>

definition registered ::
  "Context \<Rightarrow> string \<Rightarrow> loopState \<Rightarrow> JUnitTestCase \<times> Interaction \<times> Shell \<times> error option \<Rightarrow> loopState" where
  "registered runCtx inputfile st x =
     (case x of (testcase, interaction', sh', err) \<Rightarrow>
        let testcase1 = testcase\<lparr>Classname :=
                          (if ReplaceDots runCtx then ReplaceAllDots inputfile else inputfile)\<rparr>;
            testcase2 = (case err of
                           None \<Rightarrow> testcase1
                         | Some e \<Rightarrow> RegisterError testcase1 (result returnError)
                                     (Result interaction') e);
            testcase3 = (if HasFailure interaction'
                         then RegisterFailure testcase2 (result returnFailure)
                                (Result interaction')
                                (Response interaction', Output interaction')
                         else testcase2)
        in st\<lparr>suite := RegisterTestCase (suite st) testcase3, session := sh',
              executed := executed st @ [interaction']\<rparr>)"

definition stops :: "Context \<Rightarrow> JUnitTestCase \<times> Interaction \<times> Shell \<times> error option \<Rightarrow> bool" where
  "stops runCtx x =
     (case x of (testcase, interaction', sh', err) \<Rightarrow>
        err = Some ErrCancelled \<or> err = Some ErrTimeout
        \<or> (HasFailure interaction' \<and> FailureStops runCtx))"

text \<open>What the loop has gathered: all of its state but the mark of a cancelled run.\<close>

definition gathered :: "loopState \<Rightarrow> JUnitTestCase list \<times> Shell \<times> Interaction list" where
  "gathered st = (suite st, session st, executed st)"

text \<open>
  What a run of \<open>performInteractions\<close> meets: whether the input file can be read, the
  interactions the tokenizer finds in it (each with what its execution meets), and whether
  a shell is found and starts.
\<close>

record world =
  readable :: bool
  tokenized :: "(Interaction \<times> response) list"
  detected :: bool
  started :: bool

datatype setupError = ReadInputFailed | DetectShellFailed | StartShellFailed

record run =
  r_suite :: "JUnitTestCase list option"
  r_error :: "setupError option"
  r_session :: "Shell option"
  r_executed :: "Interaction list"
  r_cancelled :: bool

definition performInteractions :: "Context \<Rightarrow> string \<Rightarrow> world \<Rightarrow> run option" where
  "performInteractions runCtx inputfile w =
     (if \<not> readable w
      then Some \<lparr>r_suite = None, r_error = Some ReadInputFailed, r_session = None,
                 r_executed = [], r_cancelled = False\<rparr>
      else if DryRun runCtx
      then Some \<lparr>r_suite = Some [], r_error = None, r_session = None,
                 r_executed = [], r_cancelled = False\<rparr>
      else if \<not> detected w
      then Some \<lparr>r_suite = None, r_error = Some DetectShellFailed, r_session = None,
                 r_executed = [], r_cancelled = False\<rparr>
      else if \<not> started w
      then Some \<lparr>r_suite = None, r_error = Some StartShellFailed, r_session = None,
                 r_executed = [], r_cancelled = False\<rparr>
      else case interactionLoop runCtx inputfile (tokenized w)
                  \<lparr>suite = [], session = \<lparr>stdin = [], proc = Running\<rparr>, executed = [],
                   cancelled = False\<rparr> of
             None \<Rightarrow> None
           | Some st \<Rightarrow>
               Some \<lparr>r_suite = Some (suite st), r_error = None,
                     r_session = Some (Exit (session st)), r_executed = executed st,
                     r_cancelled = cancelled st\<rparr>)"

text \<open>What a run reports to its caller: all of its result but the mark of a cancelled run.\<close>

definition reported ::
  "run \<Rightarrow> JUnitTestCase list option \<times> setupError option \<times> Shell option \<times> Interaction list" where
  "reported r = (r_suite r, r_error r, r_session r, r_executed r)"

section \<open>Properties of the scanning loop\<close>

lemma endRx_length:
  "(Suc 0 < length (endRx_FindStringSubmatch l)) = (endRx_FindStringSubmatch l \<noteq> [])"
  by (simp add: endRx_FindStringSubmatch_def Let_def)

lemma endRx_end_line:
  assumes "tok \<noteq> []" and "newline \<notin> set tok"
  shows "endRx_FindStringSubmatch (endMarker @ '' '' @ tok) = [endMarker @ '' '' @ tok, tok]"
  using assms by (simp add: endRx_FindStringSubmatch_def Let_def)

lemma end_line_not_begin: "endMarker @ s \<noteq> beginMarker"
  by (simp add: endMarker_def beginMarker_def)

lemma scanLoop_at_begin:
  "beginRx_MatchString line \<Longrightarrow> scanLoop (line # rest) e acc bf = scanLoop rest e acc True"
  by simp

lemma scanLoop_before_begin:
  "\<not> beginRx_MatchString line \<Longrightarrow> scanLoop (line # rest) e acc False = scanLoop rest e acc False"
  by simp

lemma scanLoop_collects:
  "\<not> beginRx_MatchString line \<Longrightarrow> endRx_FindStringSubmatch line = [] \<Longrightarrow>
   scanLoop (line # rest) e acc True = scanLoop rest e (acc @ [line]) True"
  by simp

lemma scanLoop_at_end:
  "\<not> beginRx_MatchString line \<Longrightarrow> endRx_FindStringSubmatch line \<noteq> [] \<Longrightarrow>
   scanLoop (line # rest) e acc True =
     (case Atoi (endRx_FindStringSubmatch line ! 1) of
        None \<Rightarrow> Some \<lparr>r_output = [], r_rc = - 1,
                  r_err = Some (ErrExitCode (endRx_FindStringSubmatch line ! 1))\<rparr>
      | Some v \<Rightarrow> Some \<lparr>r_output = acc, r_rc = v, r_err = None\<rparr>)"
  by (simp add: endRx_length Let_def)

lemma scanLoop_unmarked:
  assumes "scanLoop ls e acc bf = Some r" and "r_err r = None"
    and "\<forall>l \<in> set acc. \<not> beginRx_MatchString l \<and> endRx_FindStringSubmatch l = []"
  shows "\<forall>l \<in> set (r_output r). \<not> beginRx_MatchString l \<and> endRx_FindStringSubmatch l = []"
  using assms
proof (induction ls arbitrary: acc bf)
  case Nil
  from Nil.prems(1) have "r_output r = acc"
    by (cases e) auto
  with Nil.prems(3) show ?case by simp
next
  case (Cons line rest)
  consider (at_begin) "beginRx_MatchString line"
    | (before) "\<not> beginRx_MatchString line" "\<not> bf"
    | (collect) "\<not> beginRx_MatchString line" "bf" "endRx_FindStringSubmatch line = []"
    | (finish) "\<not> beginRx_MatchString line" "bf" "endRx_FindStringSubmatch line \<noteq> []"
    by blast
  then show ?case
  proof cases
    case at_begin
    then have "scanLoop rest e acc True = Some r"
      using Cons.prems(1) by (simp only: scanLoop_at_begin)
    then show ?thesis
      using Cons.prems(2,3) by (rule Cons.IH)
  next
    case before
    then have "scanLoop rest e acc False = Some r"
      using Cons.prems(1) scanLoop_before_begin [of line rest e acc] by simp
    then show ?thesis
      using Cons.prems(2,3) by (rule Cons.IH)
  next
    case collect
    then have "scanLoop rest e (acc @ [line]) True = Some r"
      using Cons.prems(1) scanLoop_collects [of line rest e acc] by simp
    moreover have "\<forall>l \<in> set (acc @ [line]). \<not> beginRx_MatchString l \<and> endRx_FindStringSubmatch l = []"
      using Cons.prems(3) collect(1,3) by simp
    ultimately show ?thesis
      using Cons.prems(2) Cons.IH [of "acc @ [line]" True] by blast
  next
    case finish
    have step: "(case Atoi (endRx_FindStringSubmatch line ! 1) of
        None \<Rightarrow> Some \<lparr>r_output = [], r_rc = - 1,
                  r_err = Some (ErrExitCode (endRx_FindStringSubmatch line ! 1))\<rparr>
      | Some v \<Rightarrow> Some \<lparr>r_output = acc, r_rc = v, r_err = None\<rparr>) = Some r"
      using Cons.prems(1) finish(2) scanLoop_at_end [OF finish(1) finish(3), of rest e acc] by simp
    have "r_output r = acc"
    proof (cases "Atoi (endRx_FindStringSubmatch line ! 1)")
      case None
      with step have "r_err r \<noteq> None" by auto
      with Cons.prems(2) show ?thesis by simp
    next
      case (Some v)
      with step show ?thesis by auto
    qed
    with Cons.prems(3) show ?thesis by simp
  qed
qed

lemma scanLoop_error:
  assumes "scanLoop ls e acc bf = Some r" and "r_err r = Some x"
  shows "r_output r = [] \<and> r_rc r = - 1 \<and> (\<exists>tok. x = ErrExitCode tok)"
  using assms
proof (induction ls arbitrary: acc bf)
  case Nil
  then show ?case by (cases e) auto
next
  case (Cons line rest)
  consider (at_begin) "beginRx_MatchString line"
    | (before) "\<not> beginRx_MatchString line" "\<not> bf"
    | (collect) "\<not> beginRx_MatchString line" "bf" "endRx_FindStringSubmatch line = []"
    | (finish) "\<not> beginRx_MatchString line" "bf" "endRx_FindStringSubmatch line \<noteq> []"
    by blast
  then show ?case
  proof cases
    case at_begin
    then have "scanLoop rest e acc True = Some r"
      using Cons.prems(1) by (simp only: scanLoop_at_begin)
    then show ?thesis
      using Cons.prems(2) by (rule Cons.IH)
  next
    case before
    then have "scanLoop rest e acc False = Some r"
      using Cons.prems(1) scanLoop_before_begin [of line rest e acc] by simp
    then show ?thesis
      using Cons.prems(2) by (rule Cons.IH)
  next
    case collect
    then have "scanLoop rest e (acc @ [line]) True = Some r"
      using Cons.prems(1) scanLoop_collects [of line rest e acc] by simp
    then show ?thesis
      using Cons.prems(2) by (rule Cons.IH)
  next
    case finish
    have step: "(case Atoi (endRx_FindStringSubmatch line ! 1) of
        None \<Rightarrow> Some \<lparr>r_output = [], r_rc = - 1,
                  r_err = Some (ErrExitCode (endRx_FindStringSubmatch line ! 1))\<rparr>
      | Some v \<Rightarrow> Some \<lparr>r_output = acc, r_rc = v, r_err = None\<rparr>) = Some r"
      using Cons.prems(1) finish(2) scanLoop_at_end [OF finish(1) finish(3), of rest e acc] by simp
    show ?thesis
    proof (cases "Atoi (endRx_FindStringSubmatch line ! 1)")
      case None
      with step have "r = \<lparr>r_output = [], r_rc = - 1,
          r_err = Some (ErrExitCode (endRx_FindStringSubmatch line ! 1))\<rparr>"
        by simp
      with Cons.prems(2) show ?thesis by auto
    next
      case (Some v)
      with step have "r_err r = None" by auto
      with Cons.prems(2) show ?thesis by simp
    qed
  qed
qed

lemma scanLoop_skip:
  "beginMarker \<notin> set pre \<Longrightarrow> scanLoop (pre @ ls) e acc False = scanLoop ls e acc False"
  by (induction pre) (auto simp: beginRx_MatchString_def)

lemma scanLoop_collect:
  "\<forall>l \<in> set out. endRx_FindStringSubmatch l = [] \<Longrightarrow>
   scanLoop (out @ ls) e acc True = scanLoop ls e (acc @ filter (\<lambda>l. l \<noteq> beginMarker) out) True"
  by (induction out arbitrary: acc) (auto simp: beginRx_MatchString_def)

lemma scanLoop_end:
  assumes "tok \<noteq> []" and "newline \<notin> set tok"
  shows "scanLoop ((endMarker @ '' '' @ tok) # rest) e acc True =
    (case Atoi tok of
       None \<Rightarrow> Some \<lparr>r_output = [], r_rc = - 1, r_err = Some (ErrExitCode tok)\<rparr>
     | Some v \<Rightarrow> Some \<lparr>r_output = acc, r_rc = v, r_err = None\<rparr>)"
proof -
  have nb: "\<not> beginRx_MatchString (endMarker @ '' '' @ tok)"
    using end_line_not_begin [of "'' '' @ tok"] by (simp add: beginRx_MatchString_def)
  have grp: "endRx_FindStringSubmatch (endMarker @ '' '' @ tok) ! 1 = tok"
    using endRx_end_line [OF assms] by simp
  have ne: "endRx_FindStringSubmatch (endMarker @ '' '' @ tok) \<noteq> []"
    using endRx_end_line [OF assms] by simp
  show ?thesis
    unfolding scanLoop_at_end [OF nb ne] grp by (rule refl)
qed

lemma scanLoop_frame:
  assumes "beginMarker \<notin> set pre"
    and "\<forall>l \<in> set out. endRx_FindStringSubmatch l = []"
    and "tok \<noteq> []" and "newline \<notin> set tok"
  shows "scanLoop (pre @ beginMarker # out @ (endMarker @ '' '' @ tok) # rest) e [] False =
    (case Atoi tok of
       None \<Rightarrow> Some \<lparr>r_output = [], r_rc = - 1, r_err = Some (ErrExitCode tok)\<rparr>
     | Some v \<Rightarrow> Some \<lparr>r_output = filter (\<lambda>l. l \<noteq> beginMarker) out, r_rc = v, r_err = None\<rparr>)"
proof -
  have "scanLoop (pre @ beginMarker # out @ (endMarker @ '' '' @ tok) # rest) e [] False
      = scanLoop (beginMarker # out @ (endMarker @ '' '' @ tok) # rest) e [] False"
    using assms(1) by (rule scanLoop_skip)
  also have "\<dots> = scanLoop (out @ (endMarker @ '' '' @ tok) # rest) e [] True"
    by (simp add: scanLoop_at_begin beginRx_MatchString_def del: scanLoop.simps)
  also have "\<dots> = scanLoop ((endMarker @ '' '' @ tok) # rest) e
      ([] @ filter (\<lambda>l. l \<noteq> beginMarker) out) True"
    using assms(2) by (rule scanLoop_collect)
  finally show ?thesis
    by (simp only: scanLoop_end [OF assms(3,4)] append_Nil)
qed

section \<open>Properties of the select statement\<close>

lemma find_Some_holds: "find P xs = Some x \<Longrightarrow> P x"
  by (induction xs) (auto split: if_splits)

lemma find_unique:
  assumes "P a" and "\<And>c. P c \<Longrightarrow> c = a" and "a \<in> set xs"
  shows "find P xs = Some a"
proof (cases "find P xs")
  case None
  then have "\<not> P a"
    using assms(3) by (simp add: find_None_iff)
  with assms(1) show ?thesis by simp
next
  case (Some x)
  then have "P x" by (rule find_Some_holds)
  then have "x = a" by (rule assms(2))
  with Some show ?thesis by simp
qed

lemma selectgo_unique:
  assumes "earliest (map snd cases) = Some t" and "(c, Some t) \<in> set cases"
    and "\<And>c'. (c', Some t) \<in> set cases \<Longrightarrow> c' = c"
  shows "selectgo cases order = Some (c, t)"
proof -
  have "fst (c, Some t) \<in> fst ` set cases"
    using assms(2) by (rule imageI)
  then have "c \<in> set (order @ map fst cases)"
    by simp
  with assms(2,3) have "find (\<lambda>c. (c, Some t) \<in> set cases) (order @ map fst cases) = Some c"
    by (rule find_unique)
  then show ?thesis
    using assms(1) by (simp add: selectgo_def)
qed

lemma selectgo_never:
  "earliest (map snd cases) = None \<Longrightarrow> selectgo cases order = None"
  by (simp add: selectgo_def)

lemma selectgo_member:
  assumes "selectgo cases order = Some (c, t)"
  shows "(c, Some t) \<in> set cases"
proof -
  from assms obtain t' where t': "earliest (map snd cases) = Some t'"
    by (cases "earliest (map snd cases)") (simp_all add: selectgo_def)
  with assms have f: "find (\<lambda>c. (c, Some t') \<in> set cases) (order @ map fst cases) = Some c" and "t' = t"
    by (simp_all add: selectgo_def split: option.splits)
  from f have "(c, Some t') \<in> set cases"
    by (rule find_Some_holds)
  with \<open>t' = t\<close> show ?thesis by simp
qed

lemma ExecuteCommand_select:
  "snd (ExecuteCommand shell env command timeout) =
     (case selectgo (selectCases env timeout) (pollorder env) of
        None \<Rightarrow> None
      | Some (ResultCh, t) \<Rightarrow>
          (case scanLoop (lines env) (ends env) [] False of
             None \<Rightarrow> None
           | Some r \<Rightarrow> Some (t, r_output r, r_rc r, r_err r))
      | Some (TimerCh, t) \<Rightarrow> Some (t, [], - 1, Some ErrTimeout)
      | Some (DoneCh, t) \<Rightarrow> Some (t, [], - 1, Some ErrCancelled))"
  by (cases "timeout > 0") (simp_all add: ExecuteCommand_def selectCases_def Let_def)

lemma ExecuteCommand_writes:
  "fst (ExecuteCommand shell env command timeout) =
     shell\<lparr>stdin := stdin shell @ ''echo '' @ [dquote] @ beginMarker @ [dquote, newline]
        @ TrimSpace command @ ''; echo '' @ [dquote] @ endMarker @ '' $?'' @ [dquote, newline]\<rparr>"
  by (simp add: ExecuteCommand_def Let_def WriteString_def)

lemma selectCases_result:
  "(ResultCh, x) \<in> set (selectCases env timeout) \<longleftrightarrow>
     (case scanLoop (lines env) (ends env) [] False of None \<Rightarrow> None | Some r \<Rightarrow> Some (scanned_at env)) = x"
  by (cases "timeout > 0") (simp_all add: selectCases_def Let_def eq_commute)

lemma selectCases_timer:
  "(TimerCh, x) \<in> set (selectCases env timeout) \<longleftrightarrow> 0 < timeout \<and> Some (nat timeout) = x"
  by (cases "timeout > 0") (simp_all add: selectCases_def Let_def eq_commute)

lemma selectCases_done:
  "(DoneCh, x) \<in> set (selectCases env timeout) \<longleftrightarrow> done_at env = x"
  by (cases "timeout > 0") (simp_all add: selectCases_def Let_def eq_commute)

lemma earliest_selectCases:
  "earliest (map snd (selectCases env timeout)) =
     earliest [case scanLoop (lines env) (ends env) [] False of None \<Rightarrow> None | Some r \<Rightarrow> Some (scanned_at env),
               if 0 < timeout then Some (nat timeout) else None,
               done_at env]"
  by (cases "timeout > 0"; cases "scanLoop (lines env) (ends env) [] False")
     (simp_all add: selectCases_def Let_def)

lemma earliest3:
  "earliest [a, b, c] =
     (case a of
        None \<Rightarrow> (case b of None \<Rightarrow> c | Some y \<Rightarrow> (case c of None \<Rightarrow> Some y | Some z \<Rightarrow> Some (min y z)))
      | Some x \<Rightarrow> (case b of
           None \<Rightarrow> (case c of None \<Rightarrow> Some x | Some z \<Rightarrow> Some (min x z))
         | Some y \<Rightarrow> (case c of None \<Rightarrow> Some (min x y) | Some z \<Rightarrow> Some (min x (min y z)))))"
  by (cases a; cases b; cases c) simp_all


lemma race_result_first:
  assumes "scanLoop (lines env) (ends env) [] False = Some r"
    and "0 < timeout \<longrightarrow> scanned_at env < nat timeout"
    and "\<forall>d. done_at env = Some d \<longrightarrow> scanned_at env < d"
  shows "selectgo (selectCases env timeout) (pollorder env) = Some (ResultCh, scanned_at env)"
proof (rule selectgo_unique)
  show "earliest (map snd (selectCases env timeout)) = Some (scanned_at env)"
    using assms
    by (cases "0 < timeout"; cases "done_at env")
       (simp_all add: earliest_selectCases earliest3 min_def)
  show "(ResultCh, Some (scanned_at env)) \<in> set (selectCases env timeout)"
    using assms(1) by (simp add: selectCases_result)
  fix c' assume "(c', Some (scanned_at env)) \<in> set (selectCases env timeout)"
  then show "c' = ResultCh"
    using assms(2,3) by (cases c') (simp_all add: selectCases_timer selectCases_done)
qed

lemma race_timer_first:
  assumes "0 < timeout"
    and "scanLoop (lines env) (ends env) [] False \<noteq> None \<longrightarrow> nat timeout < scanned_at env"
    and "\<forall>d. done_at env = Some d \<longrightarrow> nat timeout < d"
  shows "selectgo (selectCases env timeout) (pollorder env) = Some (TimerCh, nat timeout)"
proof (rule selectgo_unique)
  show "earliest (map snd (selectCases env timeout)) = Some (nat timeout)"
    using assms
    by (cases "done_at env"; cases "scanLoop (lines env) (ends env) [] False")
       (simp_all add: earliest_selectCases earliest3 min_def)
  show "(TimerCh, Some (nat timeout)) \<in> set (selectCases env timeout)"
    using assms(1) by (simp add: selectCases_timer)
  fix c' assume "(c', Some (nat timeout)) \<in> set (selectCases env timeout)"
  then show "c' = TimerCh"
    using assms(2,3)
    by (cases c'; cases "scanLoop (lines env) (ends env) [] False")
       (simp_all add: selectCases_result selectCases_done)
qed

lemma race_done_first:
  assumes "done_at env = Some d"
    and "scanLoop (lines env) (ends env) [] False \<noteq> None \<longrightarrow> d < scanned_at env"
    and "0 < timeout \<longrightarrow> d < nat timeout"
  shows "selectgo (selectCases env timeout) (pollorder env) = Some (DoneCh, d)"
proof (rule selectgo_unique)
  show "earliest (map snd (selectCases env timeout)) = Some d"
    using assms
    by (cases "0 < timeout"; cases "scanLoop (lines env) (ends env) [] False")
       (simp_all add: earliest_selectCases earliest3 min_def)
  show "(DoneCh, Some d) \<in> set (selectCases env timeout)"
    using assms(1) by (simp add: selectCases_done)
  fix c' assume "(c', Some d) \<in> set (selectCases env timeout)"
  then show "c' = DoneCh"
    using assms(2,3)
    by (cases c'; cases "scanLoop (lines env) (ends env) [] False")
       (simp_all add: selectCases_result selectCases_timer)
qed

lemma race_never:
  assumes "timeout \<le> 0" and "done_at env = None"
    and "scanLoop (lines env) (ends env) [] False = None"
  shows "selectgo (selectCases env timeout) (pollorder env) = None"
  using assms by (intro selectgo_never) (simp add: earliest_selectCases)

lemma ExecuteCommand_returns:
  assumes "snd (ExecuteCommand shell env command timeout) = Some (t, out, code, e)"
  shows "(\<exists>r. scanLoop (lines env) (ends env) [] False = Some r \<and>
              out = r_output r \<and> code = r_rc r \<and> e = r_err r)
       \<or> (out = [] \<and> code = - 1 \<and> e = Some ErrTimeout \<and> 0 < timeout)
       \<or> (out = [] \<and> code = - 1 \<and> e = Some ErrCancelled)"
proof (cases "selectgo (selectCases env timeout) (pollorder env)")
  case None
  with assms show ?thesis by (simp add: ExecuteCommand_select)
next
  case (Some ct)
  obtain c t' where ct: "ct = (c, t')" by (cases ct)
  show ?thesis
  proof (cases c)
    case ResultCh
    with assms Some ct show ?thesis
      by (cases "scanLoop (lines env) (ends env) [] False") (simp_all add: ExecuteCommand_select)
  next
    case TimerCh
    with Some ct have "(TimerCh, Some t') \<in> set (selectCases env timeout)"
      by (simp add: selectgo_member)
    then have "0 < timeout" by (simp add: selectCases_timer)
    with assms Some ct TimerCh show ?thesis
      by (simp add: ExecuteCommand_select)
  next
    case DoneCh
    with assms Some ct show ?thesis
      by (simp add: ExecuteCommand_select)
  qed
qed

section \<open>Properties of the loop over the interactions\<close>

lemma interactionLoop_step:
  "interactionLoop runCtx inputfile ((interaction, env) # rest) st =
     (if done_before env then Some (st\<lparr>cancelled := True\<rparr>)
      else case performTestCase runCtx interaction (session st) env of
             None \<Rightarrow> None
           | Some x \<Rightarrow>
               if stops runCtx x then Some (registered runCtx inputfile st x)
               else interactionLoop runCtx inputfile rest (registered runCtx inputfile st x))"
proof (cases "performTestCase runCtx interaction (session st) env")
  case None
  then show ?thesis by simp
next
  case (Some x)
  obtain testcase interaction' sh' err where x: "x = (testcase, interaction', sh', err)"
    by (cases x)
  show ?thesis
    unfolding interactionLoop.simps Some x registered_def stops_def
    by (cases "err = Some ErrCancelled"; cases "err = Some ErrTimeout";
        cases "HasFailure interaction'"; cases "FailureStops runCtx")
       (simp_all add: Let_def)
qed

lemma gathered_cancelled: "gathered (st\<lparr>cancelled := b\<rparr>) = gathered st"
  by (simp add: gathered_def)

lemma interactionLoop_cancelled:
  assumes "done_before env"
  shows "map_option gathered (interactionLoop runCtx inputfile (pre @ (interaction, env) # rest) st)
       = map_option gathered (interactionLoop runCtx inputfile pre st)"
proof (induction pre arbitrary: st)
  case Nil
  show ?case
    using assms by (simp add: interactionLoop_step gathered_cancelled del: interactionLoop.simps(2))
next
  case (Cons p pre)
  obtain j e where p: "p = (j, e)" by (cases p)
  show ?case
  proof (cases "done_before e")
    case True
    then show ?thesis
      unfolding p append_Cons interactionLoop_step by simp
  next
    case nd: False
    show ?thesis
    proof (cases "performTestCase runCtx j (session st) e")
      case None
      with nd show ?thesis
        unfolding p append_Cons interactionLoop_step by simp
    next
      case (Some x)
      show ?thesis
      proof (cases "stops runCtx x")
        case True
        with nd Some show ?thesis
          unfolding p append_Cons interactionLoop_step by simp
      next
        case False
        with nd Some show ?thesis
          unfolding p append_Cons interactionLoop_step
          by (simp add: Cons.IH)
      qed
    qed
  qed
qed

section \<open>Claims about \<open>ExecuteCommand\<close>\<close>

text \<open>A fresh session and a shell that answers with the given lines after the given time,
  used in the examples below.\<close>

definition shell0 :: Shell where
  "shell0 = \<lparr>stdin = [], proc = Running\<rparr>"

definition replies :: "string list \<Rightarrow> nat \<Rightarrow> response" where
  "replies ls t = \<lparr>lines = ls, ends = False, scanned_at = t, done_at = None,
     done_before = False, pollorder = []\<rparr>"

text \<open>A shell that prints nothing, with the context done at the given time, if ever.\<close>

definition stalls :: "nat option \<Rightarrow> response" where
  "stalls d = \<lparr>lines = [], ends = False, scanned_at = 0, done_at = d,
     done_before = False, pollorder = []\<rparr>"

text \<open>
  Claim C1, as amended. For every command string, \<open>ExecuteCommand\<close> writes the line that
  echoes the begin marker and then the trimmed command followed by
  \<open>; echo "<end marker> $?"\<close> to the session's input. If the shell's output then holds a
  begin-marker line and, later, a line made of the end marker, a space and a token that reads
  as an integer, and the scan has finished before any timeout or cancellation is ready, the
  call drops every line before the first begin marker, collects the lines after it up to that
  end-marker line (lines equal to the begin marker are never collected) and returns them
  with the token as the exit code and no error.

  The claim as stated promises this of every command. The code cannot: what the shell prints
  is not in its hands. When the shell's output ends before an end-marker line (the command
  was \<open>exit 3\<close>, say), the call returns the lines collected so far with exit code 0 and no
  error, though no token was ever seen; when the end-marker echo never runs (the command
  ends in a comment) and the output stalls, the call does not return.
\<close>

theorem ExecuteCommand_frames_command:
  assumes "lines env = pre @ beginMarker # out @ (endMarker @ '' '' @ tok) # rest"
    and "beginMarker \<notin> set pre"
    and "\<forall>l \<in> set out. endRx_FindStringSubmatch l = []"
    and "tok \<noteq> []" and "newline \<notin> set tok" and "Atoi tok = Some n"
    and "0 < timeout \<longrightarrow> scanned_at env < nat timeout"
    and "\<forall>d. done_at env = Some d \<longrightarrow> scanned_at env < d"
  shows "ExecuteCommand shell env command timeout =
     (shell\<lparr>stdin := stdin shell @ ''echo '' @ [dquote] @ beginMarker @ [dquote, newline]
        @ TrimSpace command @ ''; echo '' @ [dquote] @ endMarker @ '' $?'' @ [dquote, newline]\<rparr>,
      Some (scanned_at env, filter (\<lambda>l. l \<noteq> beginMarker) out, n, None))"
proof (rule prod_eqI)
  show "fst (ExecuteCommand shell env command timeout) =
    fst (shell\<lparr>stdin := stdin shell @ ''echo '' @ [dquote] @ beginMarker @ [dquote, newline]
        @ TrimSpace command @ ''; echo '' @ [dquote] @ endMarker @ '' $?'' @ [dquote, newline]\<rparr>,
      Some (scanned_at env, filter (\<lambda>l. l \<noteq> beginMarker) out, n, None))"
    by (simp only: ExecuteCommand_writes fst_conv)
next
  let ?r = "\<lparr>r_output = filter (\<lambda>l. l \<noteq> beginMarker) out, r_rc = n, r_err = None\<rparr>"
  have scanned: "scanLoop (lines env) (ends env) [] False = Some ?r"
    using scanLoop_frame [OF assms(2,3,4,5), of rest "ends env"] assms(1,6) by simp
  then have "selectgo (selectCases env timeout) (pollorder env) = Some (ResultCh, scanned_at env)"
    using assms(7,8) by (rule race_result_first)
  with scanned show "snd (ExecuteCommand shell env command timeout) =
    snd (shell\<lparr>stdin := stdin shell @ ''echo '' @ [dquote] @ beginMarker @ [dquote, newline]
        @ TrimSpace command @ ''; echo '' @ [dquote] @ endMarker @ '' $?'' @ [dquote, newline]\<rparr>,
      Some (scanned_at env, filter (\<lambda>l. l \<noteq> beginMarker) out, n, None))"
    by (simp add: ExecuteCommand_select)
qed

theorem ExecuteCommand_frames_command_witness:
  "ExecuteCommand shell0
     (replies [''junk'', beginMarker, ''a'', beginMarker, ''b'', endMarker @ '' 3'', ''later''] 5)
     ''  ls -l  '' 0 =
   (\<lparr>stdin = ''echo '' @ [dquote] @ beginMarker @ [dquote, newline]
        @ ''ls -l'' @ ''; echo '' @ [dquote] @ endMarker @ '' $?'' @ [dquote, newline],
     proc = Running\<rparr>,
    Some (5, [''a'', ''b''], 3, None))"
proof -
  let ?env = "replies [''junk'', beginMarker, ''a'', beginMarker, ''b'', endMarker @ '' 3'', ''later''] 5"
  have h1: "lines ?env = [''junk''] @ beginMarker # [''a'', beginMarker, ''b'']
      @ (endMarker @ '' '' @ ''3'') # [''later'']"
    by (simp add: replies_def)
  have h2: "beginMarker \<notin> set [''junk'']"
    by (simp add: beginMarker_def)
  have h3: "\<forall>l \<in> set [''a'', beginMarker, ''b'']. endRx_FindStringSubmatch l = []"
    by code_simp
  have h4: "''3'' \<noteq> []" and h5: "newline \<notin> set ''3''"
    by (simp_all add: newline_def)
  have h6: "Atoi ''3'' = Some 3"
    by code_simp
  have h7: "0 < (0::int) \<longrightarrow> scanned_at ?env < nat 0"
    by simp
  have h8: "\<forall>d. done_at ?env = Some d \<longrightarrow> scanned_at ?env < d"
    by (simp add: replies_def)
  have trimmed: "TrimSpace ''  ls -l  '' = ''ls -l''"
    by code_simp
  have kept: "filter (\<lambda>l. l \<noteq> beginMarker) [''a'', beginMarker, ''b''] = [''a'', ''b'']"
    by code_simp
  have sh: "shell0\<lparr>stdin := stdin shell0 @ x\<rparr> = \<lparr>stdin = x, proc = Running\<rparr>" for x
    by (simp add: shell0_def)
  have at: "scanned_at ?env = 5"
    by (simp add: replies_def)
  show ?thesis
    using ExecuteCommand_frames_command [OF h1 h2 h3 h4 h5 h6 h7 h8, of shell0 "''  ls -l  ''"]
    by (simp only: trimmed kept sh at)
qed

text \<open>
  Claim C1 as stated fails: a shell whose output ends after \<open>hi\<close>, with no end-marker line,
  makes the call return exit code 0 without error, and one whose output stalls there makes
  it never return.
\<close>

theorem ExecuteCommand_without_end_marker:
  "snd (ExecuteCommand shell0 ((replies [beginMarker, ''hi''] 5)\<lparr>ends := True\<rparr>) ''echo hi; exit 3'' 0)
     = Some (5, [''hi''], 0, None)
   \<and> endRx_FindStringSubmatch beginMarker = []
   \<and> endRx_FindStringSubmatch ''hi'' = []
   \<and> snd (ExecuteCommand shell0 (replies [beginMarker, ''hi''] 5) ''echo hi # c'' 0) = None"
  by code_simp

text \<open>
  Claim C2. \<open>ExecuteCommand\<close> races the scan against the timer and the cancellation of the
  context. If the scan's result is ready strictly first, the call returns what the scan
  produced; if the timer of a positive timeout fires strictly first, it returns
  \<open>ErrTimeout\<close>; if the context is done strictly first, it returns \<open>ErrCancelled\<close>. With a
  timeout of zero (or less) there is no timer: the call never returns \<open>ErrTimeout\<close>, and
  without cancellation and without a result of the scan it never returns at all.
\<close>

theorem ExecuteCommand_race:
  "(\<forall>r. scanLoop (lines env) (ends env) [] False = Some r
        \<and> (0 < timeout \<longrightarrow> scanned_at env < nat timeout)
        \<and> (\<forall>d. done_at env = Some d \<longrightarrow> scanned_at env < d)
      \<longrightarrow> snd (ExecuteCommand shell env command timeout)
            = Some (scanned_at env, r_output r, r_rc r, r_err r))
   \<and> (0 < timeout
        \<and> (scanLoop (lines env) (ends env) [] False \<noteq> None \<longrightarrow> nat timeout < scanned_at env)
        \<and> (\<forall>d. done_at env = Some d \<longrightarrow> nat timeout < d)
      \<longrightarrow> snd (ExecuteCommand shell env command timeout)
            = Some (nat timeout, [], - 1, Some ErrTimeout))
   \<and> (\<forall>d. done_at env = Some d
        \<and> (scanLoop (lines env) (ends env) [] False \<noteq> None \<longrightarrow> d < scanned_at env)
        \<and> (0 < timeout \<longrightarrow> d < nat timeout)
      \<longrightarrow> snd (ExecuteCommand shell env command timeout)
            = Some (d, [], - 1, Some ErrCancelled))
   \<and> (timeout \<le> 0
      \<longrightarrow> (\<forall>t out code. snd (ExecuteCommand shell env command timeout)
              \<noteq> Some (t, out, code, Some ErrTimeout))
         \<and> (done_at env = None \<and> scanLoop (lines env) (ends env) [] False = None
            \<longrightarrow> snd (ExecuteCommand shell env command timeout) = None))"
proof (intro conjI allI impI; (elim conjE)?)
  fix r
  assume "scanLoop (lines env) (ends env) [] False = Some r"
    and "0 < timeout \<longrightarrow> scanned_at env < nat timeout"
    and "\<forall>d. done_at env = Some d \<longrightarrow> scanned_at env < d"
  then show "snd (ExecuteCommand shell env command timeout)
      = Some (scanned_at env, r_output r, r_rc r, r_err r)"
    using race_result_first [of env r timeout] by (simp add: ExecuteCommand_select)
next
  assume "0 < timeout"
    and "scanLoop (lines env) (ends env) [] False \<noteq> None \<longrightarrow> nat timeout < scanned_at env"
    and "\<forall>d. done_at env = Some d \<longrightarrow> nat timeout < d"
  then show "snd (ExecuteCommand shell env command timeout)
      = Some (nat timeout, [], - 1, Some ErrTimeout)"
    using race_timer_first [of timeout env] by (simp add: ExecuteCommand_select)
next
  fix d
  assume "done_at env = Some d"
    and "scanLoop (lines env) (ends env) [] False \<noteq> None \<longrightarrow> d < scanned_at env"
    and "0 < timeout \<longrightarrow> d < nat timeout"
  then show "snd (ExecuteCommand shell env command timeout) = Some (d, [], - 1, Some ErrCancelled)"
    using race_done_first [of env d timeout] by (simp add: ExecuteCommand_select)
next
  fix t out code
  assume le: "timeout \<le> 0"
  show "snd (ExecuteCommand shell env command timeout) \<noteq> Some (t, out, code, Some ErrTimeout)"
  proof
    assume ret: "snd (ExecuteCommand shell env command timeout) = Some (t, out, code, Some ErrTimeout)"
    from ExecuteCommand_returns [OF ret] le
    obtain r where "scanLoop (lines env) (ends env) [] False = Some r" and "r_err r = Some ErrTimeout"
      by auto
    then show False
      using scanLoop_error [of "lines env" "ends env" "[]" False r ErrTimeout] by simp
  qed
next
  assume "timeout \<le> 0" and "done_at env = None"
    and "scanLoop (lines env) (ends env) [] False = None"
  then show "snd (ExecuteCommand shell env command timeout) = None"
    using race_never [of timeout env] by (simp add: ExecuteCommand_select)
qed

theorem ExecuteCommand_race_witness:
  "snd (ExecuteCommand shell0 (replies [beginMarker, ''quick'', endMarker @ '' 0''] 5)
         ''echo quick'' 100) = Some (5, [''quick''], 0, None)
   \<and> snd (ExecuteCommand shell0 (stalls None) ''sleep 10'' 100)
         = Some (100, [], - 1, Some ErrTimeout)
   \<and> snd (ExecuteCommand shell0 (stalls (Some 7)) ''sleep 10'' 100)
         = Some (7, [], - 1, Some ErrCancelled)
   \<and> snd (ExecuteCommand shell0 (stalls None) ''sleep 10'' 0) = None"
proof (intro conjI)
  let ?quick = "replies [beginMarker, ''quick'', endMarker @ '' 0''] 5"
  have scanned: "scanLoop (lines ?quick) (ends ?quick) [] False
      = Some \<lparr>r_output = [''quick''], r_rc = 0, r_err = None\<rparr>"
    by code_simp
  have first: "(0 < (100::int) \<longrightarrow> scanned_at ?quick < nat 100)
      \<and> (\<forall>d. done_at ?quick = Some d \<longrightarrow> scanned_at ?quick < d)"
    by (simp add: replies_def)
  have at: "scanned_at ?quick = 5"
    by (simp add: replies_def)
  show "snd (ExecuteCommand shell0 ?quick ''echo quick'' 100) = Some (5, [''quick''], 0, None)"
    using ExecuteCommand_race [of ?quick 100 shell0 "''echo quick''"] scanned first at
    by simp
next
  have blocked: "scanLoop (lines (stalls None)) (ends (stalls None)) [] False = None"
    by (simp add: stalls_def)
  have none: "done_at (stalls None) = None"
    by (simp add: stalls_def)
  show "snd (ExecuteCommand shell0 (stalls None) ''sleep 10'' 100)
      = Some (100, [], - 1, Some ErrTimeout)"
    using ExecuteCommand_race [of "stalls None" 100 shell0 "''sleep 10''"] blocked none
    by simp
  show "snd (ExecuteCommand shell0 (stalls None) ''sleep 10'' 0) = None"
    using ExecuteCommand_race [of "stalls None" 0 shell0 "''sleep 10''"] blocked none
    by simp
next
  have blocked: "scanLoop (lines (stalls (Some 7))) (ends (stalls (Some 7))) [] False = None"
    by (simp add: stalls_def)
  have done7: "done_at (stalls (Some 7)) = Some 7"
    by (simp add: stalls_def)
  show "snd (ExecuteCommand shell0 (stalls (Some 7)) ''sleep 10'' 100)
      = Some (7, [], - 1, Some ErrCancelled)"
    using ExecuteCommand_race [of "stalls (Some 7)" 100 shell0 "''sleep 10''"] blocked done7
    by simp
qed

text \<open>
  Claim C9. Whenever \<open>ExecuteCommand\<close> returns an error (a timeout, a cancellation or an exit
  code that does not parse), the output it returns is nil and the exit code is -1.
\<close>

theorem ExecuteCommand_error_results:
  assumes "snd (ExecuteCommand shell env command timeout) = Some (t, out, code, Some e)"
  shows "out = [] \<and> code = - 1 \<and> (e = ErrTimeout \<or> e = ErrCancelled \<or> (\<exists>tok. e = ErrExitCode tok))"
  using ExecuteCommand_returns [OF assms]
proof (elim disjE exE conjE)
  fix r
  assume "scanLoop (lines env) (ends env) [] False = Some r"
    and "out = r_output r" and "code = r_rc r" and "Some e = r_err r"
  then show ?thesis
    using scanLoop_error [of "lines env" "ends env" "[]" False r e] by simp
qed simp_all

theorem ExecuteCommand_error_results_witness:
  "snd (ExecuteCommand shell0
     (replies [''junk'', beginMarker, ''partial'', endMarker @ '' x'', ''later''] 5) ''ls'' 0)
   = Some (5, [], - 1, Some (ErrExitCode ''x''))"
proof -
  have h: "snd (ExecuteCommand shell0
     (replies [''junk'', beginMarker, ''partial'', endMarker @ '' x'', ''later''] 5) ''ls'' 0)
     = Some (5, [], - 1, Some (ErrExitCode ''x''))"
    by code_simp
  from ExecuteCommand_error_results [OF h] h show ?thesis
    by simp
qed

text \<open>
  Claim C10. The output of a successful \<open>ExecuteCommand\<close> holds no framing line: no line
  that matches the begin-marker pattern and none that matches the end-marker pattern,
  whatever the command and whatever the shell prints.
\<close>

theorem ExecuteCommand_output_unmarked:
  assumes "snd (ExecuteCommand shell env command timeout) = Some (t, out, code, None)"
  shows "\<forall>l \<in> set out. \<not> beginRx_MatchString l \<and> endRx_FindStringSubmatch l = []"
  using ExecuteCommand_returns [OF assms]
proof (elim disjE exE conjE)
  fix r
  assume "scanLoop (lines env) (ends env) [] False = Some r"
    and "out = r_output r" and "code = r_rc r" and "None = r_err r"
  then show ?thesis
    using scanLoop_unmarked [of "lines env" "ends env" "[]" False r] by simp
qed simp_all

theorem ExecuteCommand_output_unmarked_witness:
  "snd (ExecuteCommand shell0
     (replies [''junk'', beginMarker, ''a'', beginMarker, ''b'', endMarker @ '' 0'', ''later''] 5)
     ''ls'' 0) = Some (5, [''a'', ''b''], 0, None)
   \<and> \<not> beginRx_MatchString ''a'' \<and> endRx_FindStringSubmatch ''a'' = []
   \<and> \<not> beginRx_MatchString ''b'' \<and> endRx_FindStringSubmatch ''b'' = []"
proof -
  have h: "snd (ExecuteCommand shell0
     (replies [''junk'', beginMarker, ''a'', beginMarker, ''b'', endMarker @ '' 0'', ''later''] 5)
     ''ls'' 0) = Some (5, [''a'', ''b''], 0, None)"
    by code_simp
  from ExecuteCommand_output_unmarked [OF h] h show ?thesis
    by simp
qed

section \<open>Claims about \<open>performInteractions\<close>\<close>

text \<open>
  A run context with a timeout of 100, an interaction with a command and its documented
  response, and a readable document with the given interactions, used in the examples below.
\<close>

definition ctx0 :: Context where
  "ctx0 = \<lparr>ShellName = [], FailureStops = False, Verbose = False, ReplaceDots = False,
     DryRun = False, Timeout = 100\<rparr>"

definition command :: "string \<Rightarrow> string list \<Rightarrow> Interaction" where
  "command c expected = (New [])\<lparr>Cmd := c, Response := expected\<rparr>"

definition document :: "(Interaction \<times> response) list \<Rightarrow> world" where
  "document is = \<lparr>readable = True, tokenized = is, detected = True, started = True\<rparr>"

text \<open>The state in which the loop starts, with a fresh session.\<close>

definition started0 :: loopState where
  "started0 = \<lparr>suite = [], session = shell0, executed = [], cancelled = False\<rparr>"

lemma Execute_error:
  assumes "snd (ExecuteCommand sh env (Cmd interaction) timeout) = Some (t, out, code, Some e)"
  shows "Execute interaction sh env timeout =
     Some (interaction\<lparr>ResultCode := ResultExecutionError\<rparr>,
           fst (ExecuteCommand sh env (Cmd interaction) timeout), Some e)"
proof -
  obtain sh' res where ec: "ExecuteCommand sh env (Cmd interaction) timeout = (sh', res)"
    by (cases "ExecuteCommand sh env (Cmd interaction) timeout")
  with assms have "res = Some (t, out, code, Some e)" by simp
  with ec show ?thesis by (simp add: Execute_def)
qed

lemma performInteractions_cancelled:
  assumes "done_before env"
  shows "map_option reported
           (performInteractions runCtx inputfile (w\<lparr>tokenized := pre @ (interaction, env) # rest\<rparr>))
       = map_option reported (performInteractions runCtx inputfile (w\<lparr>tokenized := pre\<rparr>))"
proof -
  let ?st = "\<lparr>suite = [], session = \<lparr>stdin = [], proc = Running\<rparr>, executed = [],
     cancelled = False\<rparr>"
  have loop: "map_option gathered
        (interactionLoop runCtx inputfile (pre @ (interaction, env) # rest) ?st)
      = map_option gathered (interactionLoop runCtx inputfile pre ?st)"
    using assms by (rule interactionLoop_cancelled)
  show ?thesis
  proof (cases "interactionLoop runCtx inputfile pre ?st")
    case None
    with loop have "interactionLoop runCtx inputfile (pre @ (interaction, env) # rest) ?st = None"
      by simp
    with None show ?thesis
      by (simp add: performInteractions_def)
  next
    case (Some s)
    with loop obtain s' where s': "interactionLoop runCtx inputfile (pre @ (interaction, env) # rest) ?st = Some s'"
      and "gathered s' = gathered s"
      by (cases "interactionLoop runCtx inputfile (pre @ (interaction, env) # rest) ?st") simp_all
    then have "suite s' = suite s" "session s' = session s" "executed s' = executed s"
      by (simp_all add: gathered_def)
    with Some s' show ?thesis
      by (simp add: performInteractions_def reported_def)
  qed
qed

text \<open>
  Claim C5, as amended. The context is polled before each interaction: an interaction that
  finds the context done is not executed and neither is any after it, and the run reports
  exactly what a run over the interactions before it reports (the test cases registered, the
  session, the interactions executed). And a call of \<open>ExecuteCommand\<close> under a context that
  is done already returns \<open>ErrCancelled\<close> at once, at time 0, unless a result of the scan is
  waiting at that very moment: then the \<open>select\<close> statement may take either case.
\<close>

theorem cancellation_stops_run:
  "(done_before env \<longrightarrow>
      map_option reported
        (performInteractions runCtx inputfile (w\<lparr>tokenized := pre @ (interaction, env) # rest\<rparr>))
      = map_option reported (performInteractions runCtx inputfile (w\<lparr>tokenized := pre\<rparr>)))
   \<and> (done_at env = Some 0
        \<and> (scanLoop (lines env) (ends env) [] False \<noteq> None \<longrightarrow> 0 < scanned_at env)
      \<longrightarrow> snd (ExecuteCommand shell env cmd timeout) = Some (0, [], - 1, Some ErrCancelled))"
proof (intro conjI impI; (elim conjE)?)
  assume "done_before env"
  then show "map_option reported
        (performInteractions runCtx inputfile (w\<lparr>tokenized := pre @ (interaction, env) # rest\<rparr>))
      = map_option reported (performInteractions runCtx inputfile (w\<lparr>tokenized := pre\<rparr>))"
    by (rule performInteractions_cancelled)
next
  assume "done_at env = Some 0"
    and "scanLoop (lines env) (ends env) [] False \<noteq> None \<longrightarrow> 0 < scanned_at env"
  then have "selectgo (selectCases env timeout) (pollorder env) = Some (DoneCh, 0)"
    by (intro race_done_first) simp_all
  then show "snd (ExecuteCommand shell env cmd timeout) = Some (0, [], - 1, Some ErrCancelled)"
    by (simp add: ExecuteCommand_select)
qed

theorem cancellation_stops_run_witness:
  "map_option reported
     (performInteractions ctx0 ''README.md''
        (document [(command ''echo hi'' [''hi''], replies [beginMarker, ''hi'', endMarker @ '' 0''] 5),
                   (command ''echo ho'' [''ho''],
                    (replies [beginMarker, ''ho'', endMarker @ '' 0''] 5)\<lparr>done_before := True\<rparr>),
                   (command ''true'' [], replies [beginMarker, endMarker @ '' 0''] 5)]))
   = map_option reported
       (performInteractions ctx0 ''README.md''
          (document [(command ''echo hi'' [''hi''], replies [beginMarker, ''hi'', endMarker @ '' 0''] 5)]))
   \<and> map_option (\<lambda>r. (map Cmd (r_executed r), map ResultCode (r_executed r)))
       (performInteractions ctx0 ''README.md''
          (document [(command ''echo hi'' [''hi''], replies [beginMarker, ''hi'', endMarker @ '' 0''] 5)]))
     = Some ([''echo hi''], [ResultMatch])
   \<and> snd (ExecuteCommand shell0 (stalls (Some 0)) ''sleep 10'' 0)
     = Some (0, [], - 1, Some ErrCancelled)"
proof (intro conjI)
  let ?e = "(replies [beginMarker, ''ho'', endMarker @ '' 0''] 5)\<lparr>done_before := True\<rparr>"
  have "done_before ?e" by simp
  moreover have "(document [])\<lparr>tokenized := xs\<rparr> = document xs" for xs
    by (simp add: document_def)
  ultimately show "map_option reported
     (performInteractions ctx0 ''README.md''
        (document [(command ''echo hi'' [''hi''], replies [beginMarker, ''hi'', endMarker @ '' 0''] 5),
                   (command ''echo ho'' [''ho''], ?e),
                   (command ''true'' [], replies [beginMarker, endMarker @ '' 0''] 5)]))
   = map_option reported
       (performInteractions ctx0 ''README.md''
          (document [(command ''echo hi'' [''hi''], replies [beginMarker, ''hi'', endMarker @ '' 0''] 5)]))"
    using cancellation_stops_run [where env = ?e and runCtx = ctx0 and inputfile = "''README.md''"
        and w = "document []"
        and pre = "[(command ''echo hi'' [''hi''], replies [beginMarker, ''hi'', endMarker @ '' 0''] 5)]"
        and interaction = "command ''echo ho'' [''ho'']"
        and rest = "[(command ''true'' [], replies [beginMarker, endMarker @ '' 0''] 5)]"]
    by simp
next
  show "map_option (\<lambda>r. (map Cmd (r_executed r), map ResultCode (r_executed r)))
       (performInteractions ctx0 ''README.md''
          (document [(command ''echo hi'' [''hi''], replies [beginMarker, ''hi'', endMarker @ '' 0''] 5)]))
     = Some ([''echo hi''], [ResultMatch])"
    by code_simp
next
  have "done_at (stalls (Some 0)) = Some 0"
    and "scanLoop (lines (stalls (Some 0))) (ends (stalls (Some 0))) [] False = None"
    by (simp_all add: stalls_def)
  then show "snd (ExecuteCommand shell0 (stalls (Some 0)) ''sleep 10'' 0)
     = Some (0, [], - 1, Some ErrCancelled)"
    using cancellation_stops_run [where env = "stalls (Some 0)" and shell = shell0
        and cmd = "''sleep 10''" and timeout = 0]
    by simp
qed

text \<open>
  Claim C5 as stated fails in its last part: with the context done already and the lines of
  a whole frame left in the shell's output, so that the scan's result is waiting when the
  \<open>select\<close> is reached, a runtime that polls the result first makes the call return the
  output and the exit code, not \<open>ErrCancelled\<close>.
\<close>

theorem already_cancelled_with_result_waiting:
  "snd (ExecuteCommand shell0
          ((replies [beginMarker, ''hi'', endMarker @ '' 0''] 0)
             \<lparr>done_at := Some 0, pollorder := [ResultCh]\<rparr>) ''echo hi'' 0)
     = Some (0, [''hi''], 0, None)"
  by code_simp

text \<open>
  Claim C3 says that after a timeout the interaction is marked as an execution error, the
  session is force-terminated and the run of the file stops. The first and the last hold.
  The session, however, is never killed: \<open>performInteractions\<close> ends it through the deferred
  \<open>Exit\<close> only, which writes \<open>exit\<close> to the shell and waits for it, while \<open>Kill\<close> is called
  by the tests of the shell package alone (after a timeout, "since shell may be in
  inconsistent state"). The run below has a first command that times out: the second
  command is never written, and the session ends as \<open>Exited\<close>, not as \<open>Killed\<close>.
\<close>

theorem performInteractions_timeout_exits:
  "map_option (\<lambda>r. (map_option proc (r_session r), map_option stdin (r_session r),
                     map ResultCode (r_executed r), map_option (map Name) (r_suite r)))
     (performInteractions ctx0 ''README.md''
        (document [(command ''sleep 10'' [], stalls None),
                   (command ''echo hi'' [''hi''], replies [beginMarker, ''hi'', endMarker @ '' 0''] 5)]))
   = Some (Some Exited,
           Some (''echo '' @ [dquote] @ beginMarker @ [dquote, newline]
                 @ ''sleep 10; echo '' @ [dquote] @ endMarker @ '' $?'' @ [dquote, newline]
                 @ ''exit'' @ [newline]),
           [ResultExecutionError], Some [''sleep 10''])"
  by code_simp

text \<open>
  Claim C4, as amended. If the scan finds, after the begin marker, an end-marker line whose
  token does not read as an integer, and its result is ready before any timeout or
  cancellation, then \<open>ExecuteCommand\<close> returns an error with nil output and exit code -1,
  the interaction is marked as an execution error and registered as an error with the suite,
  and the loop goes on with the remaining interactions: it is left only on \<open>ErrCancelled\<close>,
  on \<open>ErrTimeout\<close> and on a failed test under the stop-on-failure flag.
\<close>

theorem protocol_error_continues:
  assumes "lines env = pre @ beginMarker # out @ (endMarker @ '' '' @ tok) # later"
    and "beginMarker \<notin> set pre"
    and "\<forall>l \<in> set out. endRx_FindStringSubmatch l = []"
    and "tok \<noteq> []" and "newline \<notin> set tok" and "Atoi tok = None"
    and "0 < Timeout runCtx \<longrightarrow> scanned_at env < nat (Timeout runCtx)"
    and "\<forall>d. done_at env = Some d \<longrightarrow> scanned_at env < d"
    and "\<not> done_before env"
  shows "snd (ExecuteCommand (session st) env (Cmd interaction) (Timeout runCtx))
           = Some (scanned_at env, [], - 1, Some (ErrExitCode tok))
     \<and> interactionLoop runCtx inputfile ((interaction, env) # rest) st =
         interactionLoop runCtx inputfile rest
           (st\<lparr>suite := suite st @
                   [\<lparr>Name = Cmd interaction,
                     Classname = (if ReplaceDots runCtx then ReplaceAllDots inputfile
                                  else inputfile),
                     Error = Some \<lparr>e_Type = ''ERROR'',
                                   e_Message = ''ERROR (result not evaluated)'',
                                   e_Contents = ErrExitCode tok\<rparr>,
                     Failure = None\<rparr>],
               session := fst (ExecuteCommand (session st) env (Cmd interaction) (Timeout runCtx)),
               executed := executed st @ [interaction\<lparr>ResultCode := ResultExecutionError\<rparr>]\<rparr>)"
proof -
  let ?r = "\<lparr>r_output = [], r_rc = - 1, r_err = Some (ErrExitCode tok)\<rparr>"
  let ?sh = "fst (ExecuteCommand (session st) env (Cmd interaction) (Timeout runCtx))"
  let ?i = "interaction\<lparr>ResultCode := ResultExecutionError\<rparr>"
  let ?tc = "\<lparr>Name = Cmd interaction, Classname = [], Error = None, Failure = None\<rparr>"
  have scanned: "scanLoop (lines env) (ends env) [] False = Some ?r"
    using scanLoop_frame [OF assms(2,3,4,5), of later "ends env"] assms(1,6) by simp
  then have "selectgo (selectCases env (Timeout runCtx)) (pollorder env)
      = Some (ResultCh, scanned_at env)"
    using assms(7,8) by (rule race_result_first)
  with scanned have returned: "snd (ExecuteCommand (session st) env (Cmd interaction) (Timeout runCtx))
      = Some (scanned_at env, [], - 1, Some (ErrExitCode tok))"
    by (simp add: ExecuteCommand_select)
  then have "Execute interaction (session st) env (Timeout runCtx)
      = Some (?i, ?sh, Some (ErrExitCode tok))"
    by (rule Execute_error)
  then have ptc: "performTestCase runCtx interaction (session st) env
      = Some (?tc, ?i, ?sh, Some (ErrExitCode tok))"
    by (simp add: performTestCase_def)
  have go_on: "\<not> stops runCtx (?tc, ?i, ?sh, Some (ErrExitCode tok))"
    by (simp add: stops_def HasFailure_def)
  have reg: "registered runCtx inputfile st (?tc, ?i, ?sh, Some (ErrExitCode tok))
      = st\<lparr>suite := suite st @
                   [\<lparr>Name = Cmd interaction,
                     Classname = (if ReplaceDots runCtx then ReplaceAllDots inputfile
                                  else inputfile),
                     Error = Some \<lparr>e_Type = ''ERROR'',
                                   e_Message = ''ERROR (result not evaluated)'',
                                   e_Contents = ErrExitCode tok\<rparr>,
                     Failure = None\<rparr>],
               session := ?sh, executed := executed st @ [?i]\<rparr>"
    by (simp add: registered_def HasFailure_def RegisterError_def RegisterTestCase_def
        Result_def result_def returnError_def returnFailure_def Let_def)
  have "interactionLoop runCtx inputfile ((interaction, env) # rest) st
      = interactionLoop runCtx inputfile rest
          (registered runCtx inputfile st (?tc, ?i, ?sh, Some (ErrExitCode tok)))"
    unfolding interactionLoop_step using assms(9) ptc go_on by simp
  with returned reg show ?thesis by simp
qed

theorem protocol_error_continues_witness:
  "snd (ExecuteCommand (session started0)
          (replies [beginMarker, endMarker @ '' x'', endMarker @ '' 0''] 5)
          (Cmd (command ''./tool'' [])) (Timeout ctx0))
     = Some (scanned_at (replies [beginMarker, endMarker @ '' x'', endMarker @ '' 0''] 5),
             [], - 1, Some (ErrExitCode ''x''))
   \<and> interactionLoop ctx0 ''README.md''
       ((command ''./tool'' [], replies [beginMarker, endMarker @ '' x'', endMarker @ '' 0''] 5)
        # [(command ''echo hi'' [''hi''],
            replies [endMarker @ '' 0'', beginMarker, ''hi'', endMarker @ '' 0''] 5)]) started0
     = interactionLoop ctx0 ''README.md''
         [(command ''echo hi'' [''hi''],
           replies [endMarker @ '' 0'', beginMarker, ''hi'', endMarker @ '' 0''] 5)]
         (started0\<lparr>suite := suite started0 @
                 [\<lparr>Name = Cmd (command ''./tool'' []),
                   Classname = (if ReplaceDots ctx0 then ReplaceAllDots ''README.md''
                                else ''README.md''),
                   Error = Some \<lparr>e_Type = ''ERROR'',
                                 e_Message = ''ERROR (result not evaluated)'',
                                 e_Contents = ErrExitCode ''x''\<rparr>,
                   Failure = None\<rparr>],
             session := fst (ExecuteCommand (session started0)
                          (replies [beginMarker, endMarker @ '' x'', endMarker @ '' 0''] 5)
                          (Cmd (command ''./tool'' [])) (Timeout ctx0)),
             executed := executed started0
                 @ [(command ''./tool'' [])\<lparr>ResultCode := ResultExecutionError\<rparr>]\<rparr>)"
proof (rule protocol_error_continues [where pre = "[]" and out = "[]"
      and later = "[endMarker @ '' 0'']"])
  let ?env = "replies [beginMarker, endMarker @ '' x'', endMarker @ '' 0''] 5"
  show "lines ?env = [] @ beginMarker # [] @ (endMarker @ '' '' @ ''x'') # [endMarker @ '' 0'']"
    by (simp add: replies_def)
  show "beginMarker \<notin> set []"
    by simp
  show "\<forall>l \<in> set []. endRx_FindStringSubmatch l = []"
    by simp
  show "''x'' \<noteq> []" and "newline \<notin> set ''x''"
    by (simp_all add: newline_def)
  show "Atoi ''x'' = None"
    by code_simp
  show "0 < Timeout ctx0 \<longrightarrow> scanned_at ?env < nat (Timeout ctx0)"
    by (simp add: ctx0_def replies_def)
  show "\<forall>d. done_at ?env = Some d \<longrightarrow> scanned_at ?env < d"
    by (simp add: replies_def)
  show "\<not> done_before ?env"
    by (simp add: replies_def)
qed

text \<open>
  Claim C4 as stated fails: in the run below the first command prints a line that starts
  with the end marker and goes on with \<open>x\<close>; the exit code does not parse, the interaction is
  an execution error, and the second interaction is executed all the same and passes.
\<close>

theorem protocol_error_run_goes_on:
  "map_option (\<lambda>r. (map Cmd (r_executed r), map ResultCode (r_executed r),
                     map_option (map (\<lambda>tc. map_option e_Contents (Error tc))) (r_suite r)))
     (performInteractions ctx0 ''README.md''
        (document [(command ''./tool'' [], replies [beginMarker, endMarker @ '' x'', endMarker @ '' 0''] 5),
                   (command ''echo hi'' [''hi''],
                    replies [endMarker @ '' 0'', beginMarker, ''hi'', endMarker @ '' 0''] 5)]))
   = Some ([''./tool'', ''echo hi''], [ResultExecutionError, ResultMatch],
           Some [Some (ErrExitCode ''x''), None])"
  by code_simp

section \<open>Claims about the tokenizer package\<close>

lemma takeWhile_before_ellipsis:
  assumes "ellipsis \<notin> set before"
  shows "takeWhile (\<lambda>line. line \<noteq> ellipsis) (before @ ellipsis # after) = before"
proof -
  have "takeWhile (\<lambda>line. line \<noteq> ellipsis) (before @ ellipsis # after)
      = before @ takeWhile (\<lambda>line. line \<noteq> ellipsis) (ellipsis # after)"
    using assms by (intro takeWhile_append2) auto
  then show ?thesis by simp
qed

lemma evaluateResponse_truncates:
  assumes "ellipsis \<notin> set before"
  shows "evaluateResponse (before @ ellipsis # after) actual = (\<exists>tail. actual = before @ tail)"
proof -
  have ev: "evaluateResponse (before @ ellipsis # after) actual
      = (length before \<le> length actual \<and> take (length before) actual = before)"
    by (simp add: evaluateResponse_def takeWhile_before_ellipsis [OF assms] Let_def)
  show ?thesis
  proof
    assume "evaluateResponse (before @ ellipsis # after) actual"
    with ev have "take (length before) actual = before" by simp
    then have "actual = before @ drop (length before) actual"
      by (metis append_take_drop_id)
    then show "\<exists>tail. actual = before @ tail" ..
  next
    assume "\<exists>tail. actual = before @ tail"
    then obtain tail where "actual = before @ tail" ..
    with ev show "evaluateResponse (before @ ellipsis # after) actual" by simp
  qed
qed

text \<open>
  Claim C6. The response matcher treats a literal \<open>...\<close> line of the expected response as a
  greedy wildcard tail: with no such line before it, the expected lines before it must be
  the first lines of the actual output, and whatever the output holds from there on is
  accepted (with \<open>...\<close> first, every output is accepted); without such a line the two
  sequences must be equal. In particular the three instances of the ellipsis law hold. The
  witness is the table of \<open>TestEvaluateResponse\<close>.
\<close>

theorem evaluateResponse_ellipsis:
  "(ellipsis \<notin> set before \<longrightarrow>
      evaluateResponse (before @ ellipsis # after) actual = (\<exists>tail. actual = before @ tail))
   \<and> (ellipsis \<notin> set expected \<longrightarrow> evaluateResponse expected actual = (actual = expected))
   \<and> evaluateResponse [''X'', ''...''] [''X'', ''Y'', ''Z'']
   \<and> evaluateResponse [''...''] []
   \<and> \<not> evaluateResponse [''X'', ''...''] [''Q'']"
proof (intro conjI impI)
  assume "ellipsis \<notin> set before"
  then show "evaluateResponse (before @ ellipsis # after) actual = (\<exists>tail. actual = before @ tail)"
    by (rule evaluateResponse_truncates)
next
  assume "ellipsis \<notin> set expected"
  then show "evaluateResponse expected actual = (actual = expected)"
    by (simp add: evaluateResponse_def)
next
  show "evaluateResponse [''X'', ''...''] [''X'', ''Y'', ''Z'']"
    by code_simp
  show "evaluateResponse [''...''] []"
    by code_simp
  show "\<not> evaluateResponse [''X'', ''...''] [''Q'']"
    by code_simp
qed

theorem evaluateResponse_ellipsis_witness:
  "evaluateResponse [''hello'', ''...''] [''hello'', ''extra'', ''lines'']
   \<and> evaluateResponse [''...''] [''anything'', ''here'']
   \<and> evaluateResponse [''hello''] [''hello'']
   \<and> \<not> evaluateResponse [''hello''] [''world'']
   \<and> evaluateResponse [] []"
proof -
  have no: "ellipsis \<notin> set [''hello'']" "ellipsis \<notin> set []"
    by (simp_all add: ellipsis_def)
  have "evaluateResponse ([''hello''] @ ellipsis # []) [''hello'', ''extra'', ''lines'']"
    using evaluateResponse_ellipsis [of "[''hello'']" "[]" "[''hello'', ''extra'', ''lines'']"] no
    by simp
  moreover have "evaluateResponse ([] @ ellipsis # []) [''anything'', ''here'']"
    using evaluateResponse_ellipsis [of "[]" "[]" "[''anything'', ''here'']"]
    by simp
  moreover have "evaluateResponse [''hello''] [''hello'']"
    and "\<not> evaluateResponse [''hello''] [''world'']"
    using evaluateResponse_ellipsis [of _ _ "[''hello'']" "[''hello'']"]
      evaluateResponse_ellipsis [of _ _ "[''world'']" "[''hello'']"] no
    by simp_all
  moreover have "evaluateResponse [] []"
    using evaluateResponse_ellipsis [of _ _ "[]" "[]"]
    by simp
  ultimately show ?thesis
    by (simp add: ellipsis_def)
qed

text \<open>
  For the proofs about the extraction: the interaction that a prompt line and its response
  lines give, and what the handler emits when a command ends.
\<close>

definition extracted :: "Interaction \<Rightarrow> string \<times> string list \<Rightarrow> Interaction" where
  "extracted fresh g = fresh\<lparr>Cmd := TrimSpace (drop 2 (fst g)), Response := Response fresh @ snd g\<rparr>"

definition flush :: "Interaction option \<Rightarrow> Interaction list" where
  "flush current = (case current of None \<Rightarrow> [] | Some i \<Rightarrow> [i])"

lemma codeBlockLines_prompt:
  "isPrompt line \<Longrightarrow> codeBlockLines fresh (line # rest) current
     = flush current @ codeBlockLines fresh rest (Some (fresh\<lparr>Cmd := TrimSpace (drop 2 line)\<rparr>))"
  by (simp add: flush_def)

lemma codeBlockLines_orphans:
  "\<forall>l \<in> set orphans. \<not> isPrompt l \<Longrightarrow>
   codeBlockLines fresh (orphans @ ls) None = codeBlockLines fresh ls None"
  by (induction orphans) simp_all

lemma codeBlockLines_responses:
  "\<forall>l \<in> set rs. \<not> isPrompt l \<Longrightarrow>
   codeBlockLines fresh (rs @ ls) (Some i)
     = codeBlockLines fresh ls (Some (i\<lparr>Response := Response i @ rs\<rparr>))"
proof (induction rs arbitrary: i)
  case Nil
  show ?case by simp
next
  case (Cons r rs)
  then have "codeBlockLines fresh ((r # rs) @ ls) (Some i)
      = codeBlockLines fresh (rs @ ls) (Some (i\<lparr>Response := Response i @ [r]\<rparr>))"
    by simp
  also have "\<dots> = codeBlockLines fresh ls
      (Some (i\<lparr>Response := Response i @ [r]\<rparr>
               \<lparr>Response := Response (i\<lparr>Response := Response i @ [r]\<rparr>) @ rs\<rparr>))"
    using Cons.prems by (intro Cons.IH) simp
  finally show ?case by simp
qed

lemma codeBlockLines_groups:
  assumes "\<forall>g \<in> set groups. isPrompt (fst g) \<and> (\<forall>l \<in> set (snd g). \<not> isPrompt l)"
  shows "codeBlockLines fresh (concat (map (\<lambda>g. fst g # snd g) groups)) current
       = flush current @ map (extracted fresh) groups"
  using assms
proof (induction groups arbitrary: current)
  case Nil
  show ?case by (simp add: flush_def)
next
  case (Cons g groups)
  let ?rest = "concat (map (\<lambda>g. fst g # snd g) groups)"
  let ?i = "fresh\<lparr>Cmd := TrimSpace (drop 2 (fst g))\<rparr>"
  from Cons.prems have p: "isPrompt (fst g)" and r: "\<forall>l \<in> set (snd g). \<not> isPrompt l"
    and gs: "\<forall>g \<in> set groups. isPrompt (fst g) \<and> (\<forall>l \<in> set (snd g). \<not> isPrompt l)"
    by simp_all
  have "codeBlockLines fresh (concat (map (\<lambda>g. fst g # snd g) (g # groups))) current
      = codeBlockLines fresh (fst g # snd g @ ?rest) current"
    by simp
  also have "\<dots> = flush current @ codeBlockLines fresh (snd g @ ?rest) (Some ?i)"
    using p by (rule codeBlockLines_prompt)
  also have "codeBlockLines fresh (snd g @ ?rest) (Some ?i)
      = codeBlockLines fresh ?rest (Some (?i\<lparr>Response := Response ?i @ snd g\<rparr>))"
    using r by (rule codeBlockLines_responses)
  also have "\<dots> = flush (Some (?i\<lparr>Response := Response ?i @ snd g\<rparr>)) @ map (extracted fresh) groups"
    using gs by (rule Cons.IH)
  also have "?i\<lparr>Response := Response ?i @ snd g\<rparr> = extracted fresh g"
    by (simp add: extracted_def)
  finally show ?case by (simp add: flush_def)
qed

text \<open>Every block is a run of lines without a prompt followed by such groups.\<close>

lemma codeBlock_decomposition:
  "\<exists>orphans groups.
     block = orphans @ concat (map (\<lambda>g. fst g # snd g) groups)
     \<and> (\<forall>l \<in> set orphans. \<not> isPrompt l)
     \<and> (\<forall>g \<in> set groups. isPrompt (fst g) \<and> (\<forall>l \<in> set (snd g). \<not> isPrompt l))"
proof (induction block)
  case Nil
  show ?case
    by (rule exI [of _ "[]"], rule exI [of _ "[]"]) simp
next
  case (Cons line block)
  then obtain orphans groups where d: "block = orphans @ concat (map (\<lambda>g. fst g # snd g) groups)"
    and o: "\<forall>l \<in> set orphans. \<not> isPrompt l"
    and g: "\<forall>g \<in> set groups. isPrompt (fst g) \<and> (\<forall>l \<in> set (snd g). \<not> isPrompt l)"
    by (elim exE conjE)
  show ?case
  proof (cases "isPrompt line")
    case True
    with d o g show ?thesis
      by (intro exI [of _ "[]"] exI [of _ "(line, orphans) # groups"]) simp
  next
    case False
    with d o g show ?thesis
      by (intro exI [of _ "line # orphans"] exI [of _ groups]) simp
  qed
qed

text \<open>
  Claim C7. A code block is split into interactions at its prompt lines. For a block made of
  lines without a prompt, followed by groups of a prompt line and lines without a prompt, the
  extraction yields one interaction per group, in order, whose command is the trimmed text
  after the prompt and whose expected response is the lines of the group; the lines before
  the first prompt line are dropped. Every block has this shape
  (\<open>codeBlock_decomposition\<close>). The witness is the round trip of the spec
  (\<open>$ echo A\<close>, then \<open>A\<close>) and a block with an orphan line and two commands.
\<close>

theorem codeBlock_interactions:
  assumes "\<forall>l \<in> set orphans. \<not> isPrompt l"
    and "\<forall>g \<in> set groups. isPrompt (fst g) \<and> (\<forall>l \<in> set (snd g). \<not> isPrompt l)"
  shows "codeBlock fresh (orphans @ concat (map (\<lambda>g. fst g # snd g) groups))
       = map (\<lambda>g. fresh\<lparr>Cmd := TrimSpace (drop 2 (fst g)),
                          Response := Response fresh @ snd g\<rparr>) groups"
proof -
  have "codeBlock fresh (orphans @ concat (map (\<lambda>g. fst g # snd g) groups))
      = codeBlockLines fresh (concat (map (\<lambda>g. fst g # snd g) groups)) None"
    unfolding codeBlock_def using assms(1) by (rule codeBlockLines_orphans)
  also have "\<dots> = flush None @ map (extracted fresh) groups"
    using assms(2) by (rule codeBlockLines_groups)
  finally show ?thesis
    by (simp add: flush_def extracted_def [abs_def])
qed

theorem codeBlock_interactions_witness:
  "map (\<lambda>i. (Cmd i, Response i)) (codeBlock (New []) [''$ echo A'', ''A''])
     = [(''echo A'', [''A''])]
   \<and> map (\<lambda>i. (Cmd i, Response i))
       (codeBlock (New []) [''orphan response line'', ''$ echo one'', ''one'', ''> echo two'', ''two''])
     = [(''echo one'', [''one'']), (''echo two'', [''two''])]"
proof -
  have p: "isPrompt ''$ echo A''" "isPrompt ''$ echo one''" "isPrompt ''> echo two''"
    and n: "\<not> isPrompt ''A''" "\<not> isPrompt ''one''" "\<not> isPrompt ''two''"
      "\<not> isPrompt ''orphan response line''"
    by (simp_all add: isPrompt_def)
  have t: "TrimSpace ''echo A'' = ''echo A''"
    "TrimSpace ''echo one'' = ''echo one''"
    "TrimSpace ''echo two'' = ''echo two''"
    by code_simp+
  have "codeBlock (New []) ([] @ concat (map (\<lambda>g. fst g # snd g) [(''$ echo A'', [''A''])]))
      = map (\<lambda>g. (New [])\<lparr>Cmd := TrimSpace (drop 2 (fst g)),
                            Response := Response (New []) @ snd g\<rparr>) [(''$ echo A'', [''A''])]"
    using p n by (intro codeBlock_interactions) simp_all
  moreover have "codeBlock (New []) ([''orphan response line'']
        @ concat (map (\<lambda>g. fst g # snd g)
            [(''$ echo one'', [''one'']), (''> echo two'', [''two''])]))
      = map (\<lambda>g. (New [])\<lparr>Cmd := TrimSpace (drop 2 (fst g)),
                            Response := Response (New []) @ snd g\<rparr>)
          [(''$ echo one'', [''one'']), (''> echo two'', [''two''])]"
    using p n by (intro codeBlock_interactions) simp_all
  ultimately show ?thesis
    by (simp add: t New_def)
qed

text \<open>
  For the statements about the info string: the key and the value of a token, the keys of
  the recognized namespace, and tokens joined by single spaces.
\<close>

definition keyOf :: "string \<Rightarrow> string" where
  "keyOf token = takeWhile (\<lambda>c. c \<noteq> CHR ''='') token"

definition valueOf :: "string \<Rightarrow> string" where
  "valueOf token = drop (length (keyOf token) + 1) token"

definition recognized :: "string \<Rightarrow> bool" where
  "recognized key = (take (length namespace) key = namespace)"

fun joined :: "string list \<Rightarrow> string" where
  "joined [] = []"
| "joined [w] = w"
| "joined (w # v # ws) = w @ '' '' @ joined (v # ws)"

lemma splitOn_not_Nil: "splitOn sep s \<noteq> []"
  by (induction s) (auto split: list.splits)

lemma splitOn_word: "sep \<notin> set w \<Longrightarrow> splitOn sep w = [w]"
  by (induction w) auto

lemma splitOn_word_sep: "sep \<notin> set w \<Longrightarrow> splitOn sep (w @ sep # s) = w # splitOn sep s"
  by (induction w) auto

lemma Fields_joined:
  "\<forall>t \<in> set tokens. t \<noteq> [] \<and> CHR '' '' \<notin> set t \<Longrightarrow> Fields (joined tokens) = tokens"
proof (induction tokens rule: joined.induct)
  case 1
  show ?case by (simp add: Fields_def)
next
  case (2 w)
  then show ?case by (simp add: Fields_def splitOn_word)
next
  case (3 w v ws)
  from "3.prems" have w: "w \<noteq> []" "CHR '' '' \<notin> set w"
    and rest: "\<forall>t \<in> set (v # ws). t \<noteq> [] \<and> CHR '' '' \<notin> set t"
    by simp_all
  have "splitOn (CHR '' '') (joined (w # v # ws)) = w # splitOn (CHR '' '') (joined (v # ws))"
    using splitOn_word_sep [OF w(2), of "joined (v # ws)"] by simp
  then have "Fields (joined (w # v # ws)) = w # Fields (joined (v # ws))"
    using w(1) by (simp add: Fields_def)
  with "3.IH" [OF rest] show ?case by simp
qed

lemma Fields_language:
  assumes "lang \<noteq> []" and "CHR '' '' \<notin> set lang"
  shows "Fields (lang @ '' '') = [lang]"
  using splitOn_word_sep [OF assms(2), of "[]"] assms(1) by (simp add: Fields_def)

lemma addAttribute_recognized:
  "addAttribute attrs token =
     (if recognized (keyOf token) then attrs(keyOf token \<mapsto> valueOf token) else attrs)"
  by (simp add: addAttribute_def keyOf_def valueOf_def recognized_def Let_def)

lemma foldl_addAttribute:
  "foldl addAttribute attrs tokens
     = attrs ++ map_of (rev (map (\<lambda>t. (keyOf t, valueOf t))
                               (filter (\<lambda>t. recognized (keyOf t)) tokens)))"
proof (induction tokens arbitrary: attrs)
  case Nil
  show ?case by simp
next
  case (Cons t tokens)
  show ?case
  proof (cases "recognized (keyOf t)")
    case True
    then have "foldl addAttribute attrs (t # tokens)
        = foldl addAttribute (attrs(keyOf t \<mapsto> valueOf t)) tokens"
      by (simp add: addAttribute_recognized)
    also have "\<dots> = attrs(keyOf t \<mapsto> valueOf t)
        ++ map_of (rev (map (\<lambda>t. (keyOf t, valueOf t)) (filter (\<lambda>t. recognized (keyOf t)) tokens)))"
      by (rule Cons.IH)
    also have "attrs(keyOf t \<mapsto> valueOf t) = attrs ++ map_of [(keyOf t, valueOf t)]"
      by simp
    finally show ?thesis
      using True by (simp add: map_add_assoc del: map_add_upd)
  next
    case False
    then have "addAttribute attrs t = attrs"
      by (simp add: addAttribute_recognized)
    with False Cons.IH [of attrs] show ?thesis
      by simp
  qed
qed

lemma parse_annotated:
  assumes "lang \<noteq> []" and "CHR '' '' \<notin> set lang" and "CHR ''{'' \<notin> set lang"
    and "\<forall>t \<in> set tokens. t \<noteq> [] \<and> CHR '' '' \<notin> set t"
  shows "parseCodeBlockInfoString (lang @ '' {'' @ joined tokens @ ''}'')
     = (lang, map_of (rev (map (\<lambda>t. (keyOf t, valueOf t))
                             (filter (\<lambda>t. recognized (keyOf t)) tokens))))"
proof -
  let ?s = "lang @ '' {'' @ joined tokens @ ''}''"
  have "takeWhile (\<lambda>c. c \<noteq> CHR ''{'') ((lang @ '' '') @ CHR ''{'' # joined tokens @ ''}'')
      = (lang @ '' '') @ takeWhile (\<lambda>c. c \<noteq> CHR ''{'') (CHR ''{'' # joined tokens @ ''}'')"
    using assms(3) by (intro takeWhile_append2) auto
  then have head: "takeWhile (\<lambda>c. c \<noteq> CHR ''{'') ?s = lang @ '' ''"
    by simp
  have inner: "butlast (drop (length (lang @ '' '') + 1) ?s) = joined tokens"
    by (simp add: butlast_append)
  have "parseCodeBlockInfoString ?s
      = (case Fields (lang @ '' '') of [] \<Rightarrow> [] | word # _ \<Rightarrow> word,
         foldl addAttribute Map.empty (Fields (joined tokens)))"
    unfolding parseCodeBlockInfoString_def
    by (simp only: Let_def head inner) simp
  then show ?thesis
    by (simp add: Fields_language [OF assms(1,2)] Fields_joined [OF assms(4)] foldl_addAttribute)
qed


text \<open>The parser passes the rows of \<open>TestParseCodeBlockInfoString\<close>.\<close>

lemma parseCodeBlockInfoString_tests:
  "fst (parseCodeBlockInfoString []) = []"
  "fst (parseCodeBlockInfoString ''bash'') = []"
  "fst (parseCodeBlockInfoString ''shell {shelldocexitcode=0}'') = ''shell''"
  "snd (parseCodeBlockInfoString ''shell {shelldocexitcode=0}'') ''shelldocexitcode'' = Some ''0''"
  "fst (parseCodeBlockInfoString ''bash {shelldocexitcode=1 shelldocwhatever}'') = ''bash''"
  "snd (parseCodeBlockInfoString ''bash {shelldocexitcode=1 shelldocwhatever}'') ''shelldocexitcode''
     = Some ''1''"
  "snd (parseCodeBlockInfoString ''bash {shelldocexitcode=1 shelldocwhatever}'') ''shelldocwhatever''
     = Some []"
  "fst (parseCodeBlockInfoString ''shell {.class other=value shelldocexitcode=2}'') = ''shell''"
  "snd (parseCodeBlockInfoString ''shell {.class other=value shelldocexitcode=2}'') ''shelldocexitcode''
     = Some ''2''"
  by code_simp+

text \<open>
  Claim C8, as amended. For an info string made of a language word, a space and a
  brace-delimited suffix that holds tokens separated by single spaces, parsing yields the
  language word and the attributes of the tokens whose key starts with \<open>shelldoc\<close>: the
  key is the text before the first \<open>=\<close>, the value the text after it (empty for a bare key),
  tokens with other keys are dropped, and of several tokens with one key the last counts.
  An info string that does not end in such a suffix yields no language and no attributes.
\<close>

theorem parseCodeBlockInfoString_annotated:
  "(lang \<noteq> [] \<and> CHR '' '' \<notin> set lang \<and> CHR ''{'' \<notin> set lang
      \<and> (\<forall>t \<in> set tokens. t \<noteq> [] \<and> CHR '' '' \<notin> set t)
    \<longrightarrow> parseCodeBlockInfoString (lang @ '' {'' @ joined tokens @ ''}'')
        = (lang, map_of (rev (map (\<lambda>t. (keyOf t, valueOf t))
                                (filter (\<lambda>t. recognized (keyOf t)) tokens)))))
   \<and> (infostring = [] \<or> last infostring \<noteq> CHR ''}'' \<or> CHR ''{'' \<notin> set infostring
    \<longrightarrow> parseCodeBlockInfoString infostring = ([], Map.empty))"
proof (intro conjI impI)
  assume "lang \<noteq> [] \<and> CHR '' '' \<notin> set lang \<and> CHR ''{'' \<notin> set lang
      \<and> (\<forall>t \<in> set tokens. t \<noteq> [] \<and> CHR '' '' \<notin> set t)"
  then show "parseCodeBlockInfoString (lang @ '' {'' @ joined tokens @ ''}'')
        = (lang, map_of (rev (map (\<lambda>t. (keyOf t, valueOf t))
                                (filter (\<lambda>t. recognized (keyOf t)) tokens))))"
    by (intro parse_annotated) simp_all
next
  assume "infostring = [] \<or> last infostring \<noteq> CHR ''}'' \<or> CHR ''{'' \<notin> set infostring"
  then show "parseCodeBlockInfoString infostring = ([], Map.empty)"
    by (auto simp: parseCodeBlockInfoString_def)
qed

theorem parseCodeBlockInfoString_annotated_witness:
  "fst (parseCodeBlockInfoString ''shell {.class other=value shelldocexitcode=2 shelldocexitcode=3}'')
     = ''shell''
   \<and> snd (parseCodeBlockInfoString ''shell {.class other=value shelldocexitcode=2 shelldocexitcode=3}'')
       ''shelldocexitcode'' = Some ''3''
   \<and> snd (parseCodeBlockInfoString ''shell {.class other=value shelldocexitcode=2 shelldocexitcode=3}'')
       ''other'' = None
   \<and> parseCodeBlockInfoString ''bash'' = ([], Map.empty)"
proof -
  let ?tokens = "[''.class'', ''other=value'', ''shelldocexitcode=2'', ''shelldocexitcode=3'']"
  have h: "''shell'' \<noteq> [] \<and> CHR '' '' \<notin> set ''shell'' \<and> CHR ''{'' \<notin> set ''shell''
      \<and> (\<forall>t \<in> set ?tokens. t \<noteq> [] \<and> CHR '' '' \<notin> set t)"
    by simp
  have s: "''shell'' @ '' {'' @ joined ?tokens @ ''}''
      = ''shell {.class other=value shelldocexitcode=2 shelldocexitcode=3}''"
    by simp
  have m: "map_of (rev (map (\<lambda>t. (keyOf t, valueOf t)) (filter (\<lambda>t. recognized (keyOf t)) ?tokens)))
      = map_of [(''shelldocexitcode'', ''3''), (''shelldocexitcode'', ''2'')]"
    by (simp add: keyOf_def valueOf_def recognized_def namespace_def)
  have "parseCodeBlockInfoString ''shell {.class other=value shelldocexitcode=2 shelldocexitcode=3}''
      = (''shell'', map_of [(''shelldocexitcode'', ''3''), (''shelldocexitcode'', ''2'')])"
    using parseCodeBlockInfoString_annotated [of "''shell''" ?tokens] h
    unfolding s m by simp
  moreover have "parseCodeBlockInfoString ''bash'' = ([], Map.empty)"
    using parseCodeBlockInfoString_annotated [of _ _ "''bash''"] by simp
  ultimately show ?thesis
    by simp
qed

text \<open>
  Claim C8 as stated fails where the info string is a language alone: the leading word of
  \<open>bash\<close> is \<open>bash\<close>, but the language parsed is empty, which is what the row "language only"
  of \<open>TestParseCodeBlockInfoString\<close> expects.
\<close>

theorem parseCodeBlockInfoString_language_only:
  "fst (parseCodeBlockInfoString ''bash'') = []
   \<and> (case Fields ''bash'' of [] \<Rightarrow> [] | word # _ \<Rightarrow> word) = ''bash''"
  by code_simp

end
